theory Spec2Isabelle
  imports Complex_Main "HOL-Library.Word" "HOL-Library.List_Lexorder"
begin

unbundle bit_operations_syntax

section \<open>Common types\<close>

type_synonym byte = "8 word"
type_synonym bytes = "byte list"
type_synonym u32 = "32 word"
type_synonym u64 = "64 word"

text \<open>The exceptions of \<^verbatim>\<open>sstables.cc\<close> that the modelled functions can raise. A failed
  \<^verbatim>\<open>assert\<close> aborts the process; it is a value here as well.\<close>

datatype error =
    Bufsize_mismatch_exception nat nat
  | Malformed_sstable_exception string
  | Runtime_error string
  | Overflow_error
  | Assertion_failed string
  | Out_of_bounds

section \<open>Summary\<close>

text \<open>\<^verbatim>\<open>summary_entry\<close>: the token and key views point into the summary's own storage
  (\<^verbatim>\<open>add_summary_data\<close>); the model holds the bytes themselves.\<close>

record summary_entry =
  token :: bytes
  key :: bytes
  position :: u64

record summary_header =
  min_index_interval :: u32
  size_hdr :: u32
  memory_size :: u64
  sampling_level :: u32
  size_at_full_sampling :: u32

record summary =
  header :: summary_header
  positions :: "u32 list"
  entries :: "summary_entry list"
  first_key :: bytes
  last_key :: bytes

record index_sampling_state =
  next_data_offset_to_write_summary :: u64
  partition_count :: u64
  summary_byte_cost :: u64

subsection \<open>\<^verbatim>\<open>components_writer::maybe_add_summary_entry\<close>\<close>

definition maybe_add_summary_entry ::
  "summary \<Rightarrow> bytes \<Rightarrow> bytes \<Rightarrow> u64 \<Rightarrow> u64 \<Rightarrow> index_sampling_state
     \<Rightarrow> summary \<times> index_sampling_state" where
  "maybe_add_summary_entry s tok k data_offset index_offset state =
     (let state1 = state\<lparr>partition_count := partition_count state + 1\<rparr> in
      if data_offset \<ge> next_data_offset_to_write_summary state1 then
        (let entry_size = 8 + 2 + (of_nat (length k) :: u64);
             state2 = state1\<lparr>next_data_offset_to_write_summary :=
                        next_data_offset_to_write_summary state1
                          + summary_byte_cost state1 * entry_size\<rparr>
         in (s\<lparr>entries := entries s @ [\<lparr>token = tok, key = k, position = index_offset\<rparr>]\<rparr>,
             state2))
      else (s, state1))"

subsection \<open>\<^verbatim>\<open>seal_summary\<close>\<close>

text \<open>The loop over the entries: each round pushes the running \<^verbatim>\<open>memory_size\<close>
  (narrowed to the 32-bit position type) and adds the key's size and
  \<^verbatim>\<open>sizeof(e.position)\<close> = 8 to it.\<close>

fun seal_loop :: "summary_entry list \<Rightarrow> u32 list \<Rightarrow> u64 \<Rightarrow> u32 list \<times> u64" where
  "seal_loop [] ps ms = (ps, ms)"
| "seal_loop (e # es) ps ms =
     seal_loop es (ps @ [ucast ms]) (ms + (of_nat (length (key e)) + 8))"

text \<open>\<^verbatim>\<open>sstable::get_size_at_full_sampling\<close> is declared in a header that is not part of
  the sources at hand; it is the parameter \<open>gsfs\<close>.\<close>

definition seal_summary ::
  "(u64 \<Rightarrow> u32 \<Rightarrow> u64) \<Rightarrow> summary \<Rightarrow> bytes option \<Rightarrow> bytes option \<Rightarrow> index_sampling_state
     \<Rightarrow> error + summary" where
  "seal_summary gsfs s first_key_opt last_key_opt state =
     (let sz = (of_nat (length (entries s)) :: u32);
          sfs = (ucast (gsfs (partition_count state) (min_index_interval (header s))) :: u32);
          (ps, ms) = seal_loop (entries s) (positions s) (ucast sz * 4);
          h = (header s)\<lparr>size_hdr := sz, size_at_full_sampling := sfs, memory_size := ms\<rparr>
      in case first_key_opt of
           None \<Rightarrow> Inl (Assertion_failed ''first_key'')
         | Some fk \<Rightarrow>
             Inr (s\<lparr>header := h, positions := ps, first_key := fk,
                    last_key := (case last_key_opt of Some lk \<Rightarrow> lk | None \<Rightarrow> fk)\<rparr>))"

text \<open>The number of bytes entry \<open>e\<close> takes in the entries region, and the offset of entry
  \<open>i\<close> counted from the end of the header (the start of the positions array).\<close>

definition entry_bytes :: "summary_entry \<Rightarrow> u64" where
  "entry_bytes e = of_nat (length (key e)) + 8"

definition entry_offset :: "summary_entry list \<Rightarrow> nat \<Rightarrow> u64" where
  "entry_offset es i =
     ucast (of_nat (length es) :: u32) * 4 + sum_list (map entry_bytes (take i es))"

subsection \<open>Integer codecs and the reader\<close>

text \<open>Little-endian bytes of a word (\<^verbatim>\<open>cpu_to_le\<close>, \<^verbatim>\<open>read_le\<close>) and big-endian bytes
  (\<^verbatim>\<open>net::hton\<close>, \<^verbatim>\<open>net::ntoh\<close>), for a given number of bytes.\<close>

fun le_bytes :: "nat \<Rightarrow> 'a::len word \<Rightarrow> bytes" where
  "le_bytes 0 w = []"
| "le_bytes (Suc n) w = ucast w # le_bytes n (drop_bit 8 w)"

fun le_word :: "bytes \<Rightarrow> 'a::len word" where
  "le_word [] = 0"
| "le_word (b # bs) = ucast b OR push_bit 8 (le_word bs)"

definition be_bytes :: "nat \<Rightarrow> 'a::len word \<Rightarrow> bytes" where
  "be_bytes n w = rev (le_bytes n w)"

definition be_word :: "bytes \<Rightarrow> 'a::len word" where
  "be_word bs = le_word (rev bs)"

text \<open>\<^verbatim>\<open>random_access_reader\<close> over a file held in memory: \<^verbatim>\<open>read_exactly\<close> returns what
  is left when fewer than \<open>n\<close> bytes remain, \<^verbatim>\<open>seek\<close> sets the position.\<close>

record reader =
  rd_data :: bytes
  rd_pos :: nat

definition read_exactly :: "nat \<Rightarrow> reader \<Rightarrow> bytes \<times> reader" where
  "read_exactly n rd =
     (let buf = take n (drop (rd_pos rd) (rd_data rd))
      in (buf, rd\<lparr>rd_pos := rd_pos rd + length buf\<rparr>))"

definition seek :: "nat \<Rightarrow> reader \<Rightarrow> reader" where
  "seek p rd = rd\<lparr>rd_pos := p\<rparr>"

text \<open>\<^verbatim>\<open>check_buf_size\<close>.\<close>

definition check_buf_size :: "bytes \<Rightarrow> nat \<Rightarrow> error + unit" where
  "check_buf_size buf expected =
     (if length buf < expected then Inl (Bufsize_mismatch_exception (length buf) expected)
      else Inr ())"

text \<open>\<^verbatim>\<open>parse\<close> of an integral type of \<open>n\<close> bytes (big-endian on disk).\<close>

definition parse_int :: "nat \<Rightarrow> reader \<Rightarrow> error + ('a::len word \<times> reader)" where
  "parse_int n rd =
     (let (buf, rd1) = read_exactly n rd
      in case check_buf_size buf n of
           Inl e \<Rightarrow> Inl e
         | Inr _ \<Rightarrow> Inr (be_word buf, rd1))"

definition parse_u32 :: "reader \<Rightarrow> error + (u32 \<times> reader)" where
  "parse_u32 = parse_int 4"

definition parse_u64 :: "reader \<Rightarrow> error + (u64 \<times> reader)" where
  "parse_u64 = parse_int 8"

text \<open>\<^verbatim>\<open>parse\<close> and \<^verbatim>\<open>write\<close> of a \<^verbatim>\<open>disk_string<uint32_t>\<close>. Writing checks that the
  length fits the size type (\<^verbatim>\<open>check_truncate_and_assign\<close>).\<close>

definition parse_disk_string32 :: "reader \<Rightarrow> error + (bytes \<times> reader)" where
  "parse_disk_string32 rd =
     (case parse_u32 rd of
        Inl e \<Rightarrow> Inl e
      | Inr (len, rd1) \<Rightarrow>
          (let (buf, rd2) = read_exactly (unat len) rd1
           in case check_buf_size buf (unat len) of
                Inl e \<Rightarrow> Inl e
              | Inr _ \<Rightarrow> Inr (take (unat len) buf, rd2)))"

definition write_disk_string32 :: "bytes \<Rightarrow> error + bytes" where
  "write_disk_string32 v =
     (if unat (of_nat (length v) :: u32) \<noteq> length v then Inl Overflow_error
      else Inr (be_bytes 4 (of_nat (length v) :: u32) @ v))"

subsection \<open>\<^verbatim>\<open>write\<close> of a summary\<close>

definition write_summary_entry :: "summary_entry \<Rightarrow> bytes" where
  "write_summary_entry e = key e @ le_bytes 8 (position e)"

definition write_summary :: "summary \<Rightarrow> error + bytes" where
  "write_summary s =
     (let h = header s;
          hdr = be_bytes 4 (min_index_interval h) @ be_bytes 4 (size_hdr h)
                @ be_bytes 8 (memory_size h) @ be_bytes 4 (sampling_level h)
                @ be_bytes 4 (size_at_full_sampling h);
          ps = concat (map (le_bytes 4) (positions s));
          es = concat (map write_summary_entry (entries s))
      in case write_disk_string32 (first_key s) of
           Inl e \<Rightarrow> Inl e
         | Inr fk \<Rightarrow>
            (case write_disk_string32 (last_key s) of
               Inl e \<Rightarrow> Inl e
             | Inr lk \<Rightarrow> Inr (hdr @ ps @ es @ fk @ lk)))"

subsection \<open>\<^verbatim>\<open>parse\<close> of a summary\<close>

text \<open>\<^verbatim>\<open>sizeof(summary::header)\<close>: two 32-bit fields, one 64-bit field, two 32-bit fields.\<close>

definition sizeof_summary_header :: nat where
  "sizeof_summary_header = 24"

text \<open>The first loop: \<open>n\<close> little-endian positions out of the buffer.\<close>

fun read_positions :: "nat \<Rightarrow> bytes \<Rightarrow> u32 list" where
  "read_positions 0 b = []"
| "read_positions (Suc n) b = le_word (take 4 b) # read_positions n (drop 4 b)"

text \<open>The positions as the loader holds them while it reads the entries: the positions of
  the file followed by \<^verbatim>\<open>memory_size\<close>, narrowed to the position type.\<close>

definition load_positions :: "summary_header \<Rightarrow> bytes \<Rightarrow> u32 list" where
  "load_positions h buf = read_positions (unat (size_hdr h)) buf @ [ucast (memory_size h)]"

text \<open>The second loop, \<open>n\<close> rounds from index \<open>idx\<close>. An entry shorter than 8 bytes makes
  \<^verbatim>\<open>keysize\<close> wrap around and the reads leave the buffer: \<open>Out_of_bounds\<close>. The token comes
  from the partitioner, the parameter \<open>get_token\<close>.\<close>

fun parse_summary_entries ::
  "(bytes \<Rightarrow> bytes) \<Rightarrow> u32 list \<Rightarrow> nat \<Rightarrow> nat \<Rightarrow> reader \<Rightarrow> summary_entry list
     \<Rightarrow> error + (summary_entry list \<times> reader)" where
  "parse_summary_entries get_token ps idx 0 rd acc = Inr (acc, rd)"
| "parse_summary_entries get_token ps idx (Suc n) rd acc =
     (let pos = ps ! idx;
          next = ps ! (idx + 1);
          entrysize = next - pos;
          (buf, rd1) = read_exactly (unat entrysize) rd
      in case check_buf_size buf (unat entrysize) of
           Inl e \<Rightarrow> Inl e
         | Inr _ \<Rightarrow>
             if entrysize < 8 then Inl Out_of_bounds
             else
               (let keysize = unat (entrysize - 8);
                    key_data = take keysize buf;
                    position = le_word (take 8 (drop keysize buf))
                in parse_summary_entries get_token ps (idx + 1) n rd1
                     (acc @ [\<lparr>token = get_token key_data, key = key_data,
                              position = position\<rparr>])))"

text \<open>\<^verbatim>\<open>parse(v, in, summary&)\<close> into a fresh summary.\<close>

definition parse_summary ::
  "(bytes \<Rightarrow> bytes) \<Rightarrow> reader \<Rightarrow> error + (summary \<times> reader)" where
  "parse_summary get_token rd0 =
     (case parse_u32 rd0 of Inl e \<Rightarrow> Inl e | Inr (mii, rd1) \<Rightarrow>
      case parse_u32 rd1 of Inl e \<Rightarrow> Inl e | Inr (sz, rd2) \<Rightarrow>
      case parse_u64 rd2 of Inl e \<Rightarrow> Inl e | Inr (ms, rd3) \<Rightarrow>
      case parse_u32 rd3 of Inl e \<Rightarrow> Inl e | Inr (sl, rd4) \<Rightarrow>
      case parse_u32 rd4 of Inl e \<Rightarrow> Inl e | Inr (sfs, rd5) \<Rightarrow>
        (let h = \<lparr>min_index_interval = mii, size_hdr = sz, memory_size = ms,
                  sampling_level = sl, size_at_full_sampling = sfs\<rparr>;
             len = unat sz * 4;
             (buf, rd6) = read_exactly len rd5
         in case check_buf_size buf len of Inl e \<Rightarrow> Inl e | Inr _ \<Rightarrow>
            (let ps = load_positions h buf;
                 rd7 = seek (unat (of_nat sizeof_summary_header + ms)) rd6
             in case parse_disk_string32 rd7 of Inl e \<Rightarrow> Inl e | Inr (fk, rd8) \<Rightarrow>
                case parse_disk_string32 rd8 of Inl e \<Rightarrow> Inl e | Inr (lk, rd9) \<Rightarrow>
                  (let rd10 = seek (unat (ps ! 0) + sizeof_summary_header) rd9
                   in case parse_summary_entries get_token ps 0 (unat sz) rd10 [] of
                        Inl e \<Rightarrow> Inl e
                      | Inr (es, rd11) \<Rightarrow>
                          Inr (\<lparr>header = h, positions = butlast ps, entries = es,
                                first_key = fk, last_key = lk\<rparr>, rd11)))))"

text \<open>A summary as \<^verbatim>\<open>seal_summary\<close> leaves it: the header's size is the number of entries,
  positions and \<^verbatim>\<open>memory_size\<close> are what the sealing loop computes, everything fits its
  on-disk width, and each entry's token is the partitioner's token of its key.\<close>

definition summary_bytes :: "summary_entry list \<Rightarrow> nat" where
  "summary_bytes es = 4 * length es + sum_list (map (\<lambda>e. length (key e) + 8) es)"

definition well_formed_summary :: "(bytes \<Rightarrow> bytes) \<Rightarrow> summary \<Rightarrow> bool" where
  "well_formed_summary get_token s \<longleftrightarrow>
       size_hdr (header s) = of_nat (length (entries s))
     \<and> seal_loop (entries s) [] (ucast (size_hdr (header s)) * 4)
         = (positions s, memory_size (header s))
     \<and> summary_bytes (entries s) < 2 ^ 32
     \<and> length (first_key s) < 2 ^ 32
     \<and> length (last_key s) < 2 ^ 32
     \<and> list_all (\<lambda>e. token e = get_token (key e)) (entries s)"

text \<open>The offset of entry \<open>i\<close> from the end of the header, as a natural number.\<close>

definition noff :: "summary_entry list \<Rightarrow> nat \<Rightarrow> nat" where
  "noff es i = 4 * length es + sum_list (map (\<lambda>e. length (key e) + 8) (take i es))"

section \<open>Table of contents\<close>

datatype component_type =
    Index | CompressionInfo | Data | TemporaryTOC | Summary | Digest | CRC | Filter
  | Statistics | TemporaryStatistics | Scylla | TOC | Unknown

text \<open>\<^verbatim>\<open>sstable::generate_toc\<close>. The compressor pointer is \<open>None\<close> for \<^verbatim>\<open>nullptr\<close>; the set
  is \<^verbatim>\<open>_recognized_components\<close>.\<close>

definition generate_toc ::
  "'c option \<Rightarrow> real \<Rightarrow> component_type set \<Rightarrow> component_type set" where
  "generate_toc c filter_fp_chance recognized =
     (let r1 = insert Data (insert Summary (insert Index (insert Digest
                 (insert Statistics (insert TOC recognized)))));
          r2 = (if filter_fp_chance \<noteq> 1 then insert Filter r1 else r1);
          r3 = (if c = None then insert CRC r2 else insert CompressionInfo r2)
      in insert Scylla r3)"

text \<open>\<^verbatim>\<open>sstable::has_component\<close>.\<close>

definition has_component :: "component_type set \<Rightarrow> component_type \<Rightarrow> bool" where
  "has_component recognized f \<longleftrightarrow> f \<in> recognized"

section \<open>Sampling the index into the summary\<close>

text \<open>What a writer hands to \<^verbatim>\<open>maybe_add_summary_entry\<close> at the start of a partition: the
  token and key, the offset the data file has reached and the offset the index file has
  reached, where the partition's index entry is written next.\<close>

record index_entry =
  ie_token :: bytes
  ie_key :: bytes
  ie_data_offset :: u64
  ie_index_offset :: u64

text \<open>The summary-related steps of the writers over the partitions of a stream:
  \<^verbatim>\<open>consume_new_partition\<close> calls \<^verbatim>\<open>maybe_add_summary_entry\<close>,
  \<^verbatim>\<open>consume_end_of_partition\<close> records the first and the last key.\<close>

fun sample_partitions ::
  "summary \<Rightarrow> index_sampling_state \<Rightarrow> bytes option \<Rightarrow> bytes option \<Rightarrow> index_entry list
     \<Rightarrow> summary \<times> index_sampling_state \<times> bytes option \<times> bytes option" where
  "sample_partitions s st fk lk [] = (s, st, fk, lk)"
| "sample_partitions s st fk lk (p # ps) =
     (let (s1, st1) = maybe_add_summary_entry s (ie_token p) (ie_key p) (ie_data_offset p)
                        (ie_index_offset p) st;
          fk1 = (if fk = None then Some (ie_key p) else fk);
          lk1 = Some (ie_key p)
      in sample_partitions s1 st1 fk1 lk1 ps)"

text \<open>\<^verbatim>\<open>consume_end_of_stream\<close>, as far as the summary goes: seal what was sampled.\<close>

definition seal_sampled ::
  "(u64 \<Rightarrow> u32 \<Rightarrow> u64) \<Rightarrow> summary \<Rightarrow> index_sampling_state \<Rightarrow> index_entry list
     \<Rightarrow> error + summary" where
  "seal_sampled gsfs s st ps =
     (let (s1, st1, fk, lk) = sample_partitions s st None None ps
      in seal_summary gsfs s1 fk lk st1)"

text \<open>The sampling rule in the words of the code's comments: an entry for each partition whose
  data offset has reached the threshold; each entry moves the threshold on by the cost of its
  own bytes.\<close>

definition summary_entry_of :: "index_entry \<Rightarrow> summary_entry" where
  "summary_entry_of p = \<lparr>token = ie_token p, key = ie_key p, position = ie_index_offset p\<rparr>"

fun sampled :: "u64 \<Rightarrow> u64 \<Rightarrow> index_entry list \<Rightarrow> summary_entry list" where
  "sampled threshold cost [] = []"
| "sampled threshold cost (p # ps) =
     (if threshold \<le> ie_data_offset p
      then summary_entry_of p
             # sampled (threshold + cost * (8 + 2 + of_nat (length (ie_key p)))) cost ps
      else sampled threshold cost ps)"

section \<open>Statistics\<close>

datatype sstable_version_types = Ka | La | Mc

text \<open>The tags of \<^verbatim>\<open>metadata_type\<close>, a 32-bit enumeration.\<close>

definition Validation :: u32 where "Validation = 0"
definition Compaction :: u32 where "Compaction = 1"
definition Stats :: u32 where "Stats = 2"
definition Serialization :: u32 where "Serialization = 3"

text \<open>The parsers of the four kinds of metadata go through \<^verbatim>\<open>describe_type\<close> of types
  declared elsewhere; they are parameters here. \<open>'m\<close> is what a parsed metadata is.\<close>

record 'm metadata_parsers =
  parse_validation_metadata :: "sstable_version_types \<Rightarrow> reader \<Rightarrow> error + ('m \<times> reader)"
  parse_compaction_metadata :: "sstable_version_types \<Rightarrow> reader \<Rightarrow> error + ('m \<times> reader)"
  parse_stats_metadata :: "sstable_version_types \<Rightarrow> reader \<Rightarrow> error + ('m \<times> reader)"
  parse_serialization_header :: "sstable_version_types \<Rightarrow> reader \<Rightarrow> error + ('m \<times> reader)"

record 'm statistics =
  offsets :: "(u32 \<times> u32) list"
  contents :: "u32 \<rightharpoonup> 'm"

text \<open>\<^verbatim>\<open>parse\<close> of the \<^verbatim>\<open>disk_array\<close> of (tag, offset) pairs: a 32-bit count, then as many
  pairs of 32-bit integers, appended to the elements.\<close>

fun parse_offsets_elements ::
  "nat \<Rightarrow> reader \<Rightarrow> (u32 \<times> u32) list \<Rightarrow> error + ((u32 \<times> u32) list \<times> reader)" where
  "parse_offsets_elements 0 rd arr = Inr (arr, rd)"
| "parse_offsets_elements (Suc n) rd arr =
     (case parse_u32 rd of Inl e \<Rightarrow> Inl e | Inr (tag, rd1) \<Rightarrow>
      case parse_u32 rd1 of Inl e \<Rightarrow> Inl e | Inr (off, rd2) \<Rightarrow>
        parse_offsets_elements n rd2 (arr @ [(tag, off)]))"

definition parse_offsets ::
  "reader \<Rightarrow> (u32 \<times> u32) list \<Rightarrow> error + ((u32 \<times> u32) list \<times> reader)" where
  "parse_offsets rd arr =
     (case parse_u32 rd of Inl e \<Rightarrow> Inl e
      | Inr (len, rd1) \<Rightarrow> parse_offsets_elements (unat len) rd1 arr)"

text \<open>The body of the \<^verbatim>\<open>do_for_each\<close> over the sorted elements: seek to the offset,
  then parse by tag. An unknown tag is logged and skipped.\<close>

definition parse_statistics_entry ::
  "'m metadata_parsers \<Rightarrow> sstable_version_types \<Rightarrow> u32 \<times> u32 \<Rightarrow> reader
     \<Rightarrow> (u32 \<rightharpoonup> 'm) \<Rightarrow> error + ((u32 \<rightharpoonup> 'm) \<times> reader)" where
  "parse_statistics_entry P v val rd c =
     (let rd1 = seek (unat (snd val)) rd in
      if fst val = Validation then
        (case parse_validation_metadata P v rd1 of Inl e \<Rightarrow> Inl e
         | Inr (m, rd2) \<Rightarrow> Inr (c(fst val \<mapsto> m), rd2))
      else if fst val = Compaction then
        (case parse_compaction_metadata P v rd1 of Inl e \<Rightarrow> Inl e
         | Inr (m, rd2) \<Rightarrow> Inr (c(fst val \<mapsto> m), rd2))
      else if fst val = Stats then
        (case parse_stats_metadata P v rd1 of Inl e \<Rightarrow> Inl e
         | Inr (m, rd2) \<Rightarrow> Inr (c(fst val \<mapsto> m), rd2))
      else if fst val = Serialization then
        (if v \<noteq> Mc then
           Inl (Runtime_error
             ''Statistics is malformed: SSTable is in 2.x format but contains serialization header.'')
         else
           (case parse_serialization_header P v rd1 of Inl e \<Rightarrow> Inl e
            | Inr (m, rd2) \<Rightarrow> Inr (c(fst val \<mapsto> m), rd2)))
      else Inr (c, rd1))"

text \<open>The \<^verbatim>\<open>do_for_each\<close> itself: the elements in order, until one fails.\<close>

fun parse_statistics_entries ::
  "'m metadata_parsers \<Rightarrow> sstable_version_types \<Rightarrow> (u32 \<times> u32) list \<Rightarrow> reader
     \<Rightarrow> (u32 \<rightharpoonup> 'm) \<Rightarrow> error + ((u32 \<rightharpoonup> 'm) \<times> reader)" where
  "parse_statistics_entries P v [] rd c = Inr (c, rd)"
| "parse_statistics_entries P v (val # vals) rd c =
     (case parse_statistics_entry P v val rd c of Inl e \<Rightarrow> Inl e
      | Inr (c1, rd1) \<Rightarrow> parse_statistics_entries P v vals rd1 c1)"

text \<open>\<^verbatim>\<open>parse(v, in, statistics&)\<close>. \<^verbatim>\<open>boost::sort\<close> orders the elements by tag; the order
  it leaves between elements of equal tag is not specified, the model keeps theirs.\<close>

definition parse_statistics ::
  "'m metadata_parsers \<Rightarrow> sstable_version_types \<Rightarrow> reader \<Rightarrow> 'm statistics
     \<Rightarrow> error + ('m statistics \<times> reader)" where
  "parse_statistics P v rd s =
     (case parse_offsets rd (offsets s) of Inl e \<Rightarrow> Inl e
      | Inr (elements, rd1) \<Rightarrow>
          (let sorted_elements = sort_key fst elements
           in case parse_statistics_entries P v sorted_elements rd1 (contents s) of
                Inl e \<Rightarrow> Inl e
              | Inr (c, rd2) \<Rightarrow> Inr (s\<lparr>offsets := sorted_elements, contents := c\<rparr>, rd2)))"

text \<open>Modelled from the spec: the declaration of \<^verbatim>\<open>validation_metadata\<close> is not among the
  sources; the spec lists a partitioner name and a false-positive chance. The name is a
  length-prefixed string (16-bit length), the chance a double, kept as its 64 bits.\<close>

definition parse_validation ::
  "sstable_version_types \<Rightarrow> reader \<Rightarrow> error + ((bytes \<times> u64) \<times> reader)" where
  "parse_validation v rd =
     (case (parse_int 2 rd :: error + (16 word \<times> reader)) of Inl e \<Rightarrow> Inl e
      | Inr (len, rd1) \<Rightarrow>
          (let (buf, rd2) = read_exactly (unat len) rd1
           in case check_buf_size buf (unat len) of Inl e \<Rightarrow> Inl e
              | Inr _ \<Rightarrow>
                 (case parse_u64 rd2 of Inl e \<Rightarrow> Inl e
                  | Inr (d, rd3) \<Rightarrow> Inr ((take (unat len) buf, d), rd3))))"

text \<open>The error raised for a serialization header in an sstable that is not \<^verbatim>\<open>mc\<close>.\<close>

definition serialization_header_error :: error where
  "serialization_header_error = Runtime_error
     ''Statistics is malformed: SSTable is in 2.x format but contains serialization header.''"

section \<open>The writer of the \<^verbatim>\<open>mc\<close> format\<close>

subsection \<open>Mutation fragments\<close>

type_synonym clustering_key_prefix = "bytes list"

text \<open>A row's cells by column id; \<^verbatim>\<open>static_row{}\<close> is the empty one.\<close>

type_synonym row = "(nat \<times> bytes) list"

text \<open>\<^verbatim>\<open>tombstone\<close> is declared outside the sources at hand: a timestamp and a deletion time
  (seconds); the default-constructed one has the missing timestamp, the smallest 64-bit value,
  and converts to \<^verbatim>\<open>false\<close>.\<close>

record tombstone =
  timestamp :: u64
  deletion_time :: u64

definition missing_timestamp :: u64 where
  "missing_timestamp = 0x8000000000000000"

definition empty_tombstone :: tombstone where
  "empty_tombstone = \<lparr>timestamp = missing_timestamp, deletion_time = 0\<rparr>"

definition tombstone_set :: "tombstone \<Rightarrow> bool" where
  "tombstone_set t \<longleftrightarrow> timestamp t \<noteq> missing_timestamp"

record deletion_time_struct =
  local_deletion_time :: u32
  marked_for_delete_at :: u64

text \<open>\<^verbatim>\<open>to_deletion_time\<close>: \<^verbatim>\<open>numeric_limits<int32_t>::max()\<close> and
  \<^verbatim>\<open>numeric_limits<int64_t>::min()\<close> for a tombstone that is not set.\<close>

definition to_deletion_time :: "tombstone \<Rightarrow> deletion_time_struct" where
  "to_deletion_time t =
     (if tombstone_set t
      then \<lparr>local_deletion_time = ucast (deletion_time t), marked_for_delete_at = timestamp t\<rparr>
      else \<lparr>local_deletion_time = 0x7FFFFFFF, marked_for_delete_at = 0x8000000000000000\<rparr>)"

datatype bound_kind = excl_end | incl_start | incl_end | excl_start

datatype bound_kind_m =
    excl_end_m | incl_start_m | excl_end_incl_start_m | static_clustering_m | clustering_m
  | incl_end_excl_start_m | incl_end_m | excl_start_m

text \<open>\<^verbatim>\<open>to_bound_kind_m\<close> takes a bound kind to the kind of the same name.\<close>

fun to_bound_kind_m :: "bound_kind \<Rightarrow> bound_kind_m" where
  "to_bound_kind_m excl_end = excl_end_m"
| "to_bound_kind_m incl_start = incl_start_m"
| "to_bound_kind_m incl_end = incl_end_m"
| "to_bound_kind_m excl_start = excl_start_m"

record range_tombstone =
  rt_start :: clustering_key_prefix
  rt_start_kind :: bound_kind
  rt_end :: clustering_key_prefix
  rt_end_kind :: bound_kind
  rt_tomb :: tombstone

record clustering_row =
  cr_key :: clustering_key_prefix
  cr_tomb :: tombstone
  cr_cells :: row

record rt_marker =
  rtm_clustering :: clustering_key_prefix
  rtm_kind :: bound_kind_m
  rtm_tomb :: tombstone
  rtm_boundary_tomb :: "tombstone option"

record decorated_key =
  dk_token :: bytes
  dk_key :: bytes

text \<open>Positions in a partition: the bound of a range tombstone, or the position after a
  clustering key.\<close>

datatype position_in_partition =
    range_tombstone_position clustering_key_prefix bound_kind
  | after_key clustering_key_prefix

subsection \<open>What the writer puts into the data file\<close>

text \<open>The data file as the sequence of the writer's writes. The bytes of each come from
  encoders that are not part of the sources at hand; what the writer itself decides is kept: the
  kind of record, its content and the size of the previous row passed along.\<close>

datatype data_item =
    Partition_key bytes
  | Deletion_time deletion_time_struct
  | Static_row row
  | Clustering_row clustering_row u64
  | Rt_marker rt_marker u64
  | End_of_partition

fun is_clustered_item :: "data_item \<Rightarrow> bool" where
  "is_clustered_item (Clustering_row cr p) = True"
| "is_clustered_item (Rt_marker m p) = True"
| "is_clustered_item _ = False"

fun is_rt_marker_item :: "data_item \<Rightarrow> bool" where
  "is_rt_marker_item (Rt_marker m p) = True"
| "is_rt_marker_item _ = False"

fun is_deletion_time_item :: "data_item \<Rightarrow> bool" where
  "is_deletion_time_item (Deletion_time d) = True"
| "is_deletion_time_item _ = False"

fun is_static_row_item :: "data_item \<Rightarrow> bool" where
  "is_static_row_item (Static_row r) = True"
| "is_static_row_item _ = False"

subsection \<open>Schema, configuration and the functions declared elsewhere\<close>

record writer_env =
  has_static_columns :: bool
  is_compound :: bool
  is_compact_table :: bool
  compression_info :: bool
  max_sstable_size :: u64
  equal_compare :: "position_in_partition \<Rightarrow> position_in_partition \<Rightarrow> bool"
  less_compare :: "position_in_partition \<Rightarrow> position_in_partition \<Rightarrow> bool"
  to_bound_kind :: "bound_kind_m \<Rightarrow> bound_kind"
  item_size :: "data_item \<Rightarrow> u64"
  compressed_file_length :: "data_item list \<Rightarrow> u64"
  write_vint :: "u64 \<Rightarrow> bytes"
  write_signed_vint :: "u64 \<Rightarrow> bytes"
  clustering_size :: "clustering_key_prefix \<Rightarrow> 16 word"
  write_clustering_prefix_of_schema :: "clustering_key_prefix \<Rightarrow> bool \<Rightarrow> bytes"

subsection \<open>The writer's state\<close>

record clustering_info =
  ci_clustering :: clustering_key_prefix
  ci_kind :: bound_kind_m

record pi_block =
  pib_first :: clustering_info
  pib_last :: clustering_info
  pib_offset :: u64
  pib_width :: u64
  pib_open_marker :: "tombstone option"

record writer_state =
  data :: "data_item list"
  data_writer_offset :: u64
  index :: bytes
  tombstone_written :: bool
  static_row_written :: bool
  partition_header_length :: u64
  prev_row_start :: u64
  partition_key :: "bytes option"
  writer_first_key :: "bytes option"
  writer_last_key :: "bytes option"
  sampling_state :: index_sampling_state
  writer_summary :: summary
  end_open_marker :: "rt_marker option"
  promoted_index :: "pi_block list"
  pi_tomb :: tombstone
  block_start_offset :: u64
  block_next_start_offset :: u64
  first_clustering :: "clustering_info option"
  last_clustering :: "clustering_info option"
  desired_block_size :: u64
  start_offset :: u64
  rows_count :: u64
  partition_size :: u64

text \<open>A write to the data file: the record joins the sequence, the offset advances by its
  size.\<close>

definition write_data :: "writer_env \<Rightarrow> data_item \<Rightarrow> writer_state \<Rightarrow> writer_state" where
  "write_data env it st =
     st\<lparr>data := data st @ [it], data_writer_offset := data_writer_offset st + item_size env it\<rparr>"

text \<open>\<^verbatim>\<open>get_data_offset\<close>.\<close>

definition get_data_offset :: "writer_env \<Rightarrow> writer_state \<Rightarrow> u64" where
  "get_data_offset env st =
     (if compression_info env then compressed_file_length env (data st)
      else data_writer_offset st)"

text \<open>\<^verbatim>\<open>rt_marker::position\<close> and the position of a range tombstone, its start bound.\<close>

definition rt_marker_position :: "writer_env \<Rightarrow> rt_marker \<Rightarrow> position_in_partition" where
  "rt_marker_position env m =
     range_tombstone_position (rtm_clustering m) (to_bound_kind env (rtm_kind m))"

definition rt_position :: "range_tombstone \<Rightarrow> position_in_partition" where
  "rt_position rt = range_tombstone_position (rt_start rt) (rt_start_kind rt)"

text \<open>Sequencing of steps that can fail.\<close>

definition and_then :: "error + 'a \<Rightarrow> ('a \<Rightarrow> error + 'b) \<Rightarrow> error + 'b" where
  "and_then r f = (case r of Inl e \<Rightarrow> Inl e | Inr x \<Rightarrow> f x)"

subsection \<open>Partition tombstone and static row\<close>

text \<open>\<^verbatim>\<open>sstable_writer_m::consume(tombstone)\<close>. The statistics it feeds belong to the metadata
  collector and are left out.\<close>

definition consume_tombstone :: "writer_env \<Rightarrow> tombstone \<Rightarrow> writer_state \<Rightarrow> writer_state" where
  "consume_tombstone env t st =
     (let current_pos = data_writer_offset st;
          st1 = write_data env (Deletion_time (to_deletion_time t)) st;
          st2 = st1\<lparr>partition_header_length :=
                      partition_header_length st1 + (data_writer_offset st1 - current_pos)\<rparr>
      in st2\<lparr>pi_tomb := t, tombstone_written := True\<rparr>)"

definition ensure_tombstone_is_written :: "writer_env \<Rightarrow> writer_state \<Rightarrow> writer_state" where
  "ensure_tombstone_is_written env st =
     (if \<not> tombstone_written st then consume_tombstone env empty_tombstone st else st)"

definition write_static_row :: "writer_env \<Rightarrow> row \<Rightarrow> writer_state \<Rightarrow> error + writer_state" where
  "write_static_row env r st =
     (if \<not> is_compound env then Inl (Assertion_failed ''_schema.is_compound()'')
      else
        (let current_pos = data_writer_offset st;
             st1 = write_data env (Static_row r) st;
             st2 = st1\<lparr>partition_header_length :=
                         partition_header_length st1 + (data_writer_offset st1 - current_pos)\<rparr>
         in Inr (st2\<lparr>rows_count := rows_count st2 + 1\<rparr>)))"

definition consume_static_row :: "writer_env \<Rightarrow> row \<Rightarrow> writer_state \<Rightarrow> error + writer_state" where
  "consume_static_row env sr st =
     and_then (write_static_row env sr (ensure_tombstone_is_written env st))
       (\<lambda>st1. Inr (st1\<lparr>static_row_written := True\<rparr>))"

definition ensure_static_row_is_written_if_needed ::
  "writer_env \<Rightarrow> writer_state \<Rightarrow> error + writer_state" where
  "ensure_static_row_is_written_if_needed env st =
     (if has_static_columns env \<and> \<not> static_row_written st then consume_static_row env [] st
      else Inr st)"

subsection \<open>Clustered entries and the promoted index blocks\<close>

definition maybe_set_pi_first_clustering :: "clustering_info \<Rightarrow> writer_state \<Rightarrow> writer_state" where
  "maybe_set_pi_first_clustering info st =
     (let pos = data_writer_offset st in
      if first_clustering st = None
      then st\<lparr>first_clustering := Some info, block_start_offset := pos,
              block_next_start_offset := pos + desired_block_size st\<rparr>
      else st)"

text \<open>\<^verbatim>\<open>add_pi_block\<close> dereferences both optional clusterings; an empty one is
  \<open>Out_of_bounds\<close>.\<close>

definition add_pi_block :: "writer_state \<Rightarrow> error + writer_state" where
  "add_pi_block st =
     (case (first_clustering st, last_clustering st) of
        (Some f, Some l) \<Rightarrow>
          Inr (st\<lparr>promoted_index := promoted_index st @
                 [\<lparr>pib_first = f, pib_last = l,
                   pib_offset = block_start_offset st - start_offset st,
                   pib_width = data_writer_offset st - block_start_offset st,
                   pib_open_marker = (case end_open_marker st of
                                         Some m \<Rightarrow> Some (rtm_tomb m) | None \<Rightarrow> None)\<rparr>]\<rparr>)
      | _ \<Rightarrow> Inl Out_of_bounds)"

definition maybe_add_pi_block :: "writer_state \<Rightarrow> error + writer_state" where
  "maybe_add_pi_block st =
     (let pos = data_writer_offset st in
      if pos \<ge> block_next_start_offset st
      then and_then (add_pi_block st)
             (\<lambda>st1. Inr (st1\<lparr>first_clustering := None,
                             block_next_start_offset := pos + desired_block_size st1\<rparr>))
      else Inr st)"

text \<open>The template \<^verbatim>\<open>write_clustered(const T&)\<close>; \<open>item\<close> is the record written, given the
  size of the previous row.\<close>

definition write_clustered ::
  "writer_env \<Rightarrow> clustering_info \<Rightarrow> (u64 \<Rightarrow> data_item) \<Rightarrow> writer_state \<Rightarrow> error + writer_state" where
  "write_clustered env info item st =
     (let st1 = maybe_set_pi_first_clustering info st;
          pos = data_writer_offset st1;
          st2 = write_data env (item (pos - prev_row_start st1)) st1;
          st3 = st2\<lparr>last_clustering := Some info, prev_row_start := pos\<rparr>
      in maybe_add_pi_block st3)"

text \<open>\<^verbatim>\<open>consume(rt_marker&&)\<close>. Writing the marker's clustering prefix asserts that its kind
  is not \<^verbatim>\<open>static_clustering\<close>.\<close>

definition consume_rt_marker :: "writer_env \<Rightarrow> rt_marker \<Rightarrow> writer_state \<Rightarrow> error + writer_state" where
  "consume_rt_marker env m st =
     (if rtm_kind m = static_clustering_m
      then Inl (Assertion_failed ''kind != bound_kind_m::static_clustering'')
      else write_clustered env \<lparr>ci_clustering = rtm_clustering m, ci_kind = rtm_kind m\<rparr>
             (Rt_marker m) st)"

definition write_clustered_row ::
  "writer_env \<Rightarrow> clustering_row \<Rightarrow> writer_state \<Rightarrow> error + writer_state" where
  "write_clustered_row env cr st =
     write_clustered env \<lparr>ci_clustering = cr_key cr, ci_kind = clustering_m\<rparr>
       (\<lambda>prev. Clustering_row cr prev) (st\<lparr>rows_count := rows_count st + 1\<rparr>)"

subsection \<open>Draining the range tombstones\<close>

definition get_rt_start :: "range_tombstone \<Rightarrow> rt_marker" where
  "get_rt_start rt = \<lparr>rtm_clustering = rt_start rt, rtm_kind = to_bound_kind_m (rt_start_kind rt),
                       rtm_tomb = rt_tomb rt, rtm_boundary_tomb = None\<rparr>"

definition get_rt_end :: "range_tombstone \<Rightarrow> rt_marker" where
  "get_rt_end rt = \<lparr>rtm_clustering = rt_end rt, rtm_kind = to_bound_kind_m (rt_end_kind rt),
                     rtm_tomb = rt_tomb rt, rtm_boundary_tomb = None\<rparr>"

text \<open>\<^verbatim>\<open>flush_end_open_marker\<close>: the marker is taken out before it is consumed.\<close>

definition flush_end_open_marker :: "writer_env \<Rightarrow> writer_state \<Rightarrow> error + writer_state" where
  "flush_end_open_marker env st =
     (case end_open_marker st of
        None \<Rightarrow> Inl Out_of_bounds
      | Some m \<Rightarrow> consume_rt_marker env m (st\<lparr>end_open_marker := None\<rparr>))"

definition boundary_kind :: "range_tombstone \<Rightarrow> bound_kind_m" where
  "boundary_kind rt =
     (if rt_start_kind rt = incl_start then excl_end_incl_start_m else incl_end_excl_start_m)"

definition write_rt_boundary ::
  "writer_env \<Rightarrow> range_tombstone \<Rightarrow> writer_state \<Rightarrow> error + writer_state" where
  "write_rt_boundary env rt st =
     (case end_open_marker st of
        None \<Rightarrow> Inl Out_of_bounds
      | Some m \<Rightarrow>
          (let end_tomb = rtm_tomb m;
               st1 = st\<lparr>end_open_marker := Some (get_rt_end rt)\<rparr>
           in consume_rt_marker env
                \<lparr>rtm_clustering = rt_start rt, rtm_kind = boundary_kind rt, rtm_tomb = end_tomb,
                 rtm_boundary_tomb = Some (rt_tomb rt)\<rparr> st1))"

text \<open>One round of the \<^verbatim>\<open>while\<close> loop of \<^verbatim>\<open>drain_tombstones\<close>, for the range tombstone
  the stream hands out. Trimming the tombstone and giving it back changes the stream only, which
  is not the writer's.\<close>

definition drain_step :: "writer_env \<Rightarrow> range_tombstone \<Rightarrow> writer_state \<Rightarrow> error + writer_state" where
  "drain_step env rt st =
     and_then
       (case end_open_marker st of
          Some m \<Rightarrow>
            if equal_compare env (rt_marker_position env m) (rt_position rt) then
              and_then (write_rt_boundary env rt st) (\<lambda>st1. Inr (st1, False))
            else if less_compare env (rt_position rt) (rt_marker_position env m) then
              (if rtm_tomb m \<noteq> rt_tomb rt then
                 and_then (write_rt_boundary env rt st) (\<lambda>st1. Inr (st1, False))
               else Inr (st\<lparr>end_open_marker := Some (get_rt_end rt)\<rparr>, False))
            else and_then (flush_end_open_marker env st) (\<lambda>st1. Inr (st1, True))
        | None \<Rightarrow> Inr (st, True))
       (\<lambda>(st1, need_write_start).
          if need_write_start
          then consume_rt_marker env (get_rt_start rt)
                 (st1\<lparr>end_open_marker := Some (get_rt_end rt)\<rparr>)
          else Inr st1)"

fun drain_loop :: "writer_env \<Rightarrow> range_tombstone list \<Rightarrow> writer_state \<Rightarrow> error + writer_state" where
  "drain_loop env [] st = Inr st"
| "drain_loop env (rt # rts) st = and_then (drain_step env rt st) (drain_loop env rts)"

text \<open>\<^verbatim>\<open>drain_tombstones(pos)\<close>; \<open>rts\<close> are the range tombstones that \<^verbatim>\<open>get_next_rt\<close> returns
  during the call, in order.\<close>

definition drain_tombstones ::
  "writer_env \<Rightarrow> position_in_partition option \<Rightarrow> range_tombstone list \<Rightarrow> writer_state
     \<Rightarrow> error + writer_state" where
  "drain_tombstones env pos rts st =
     and_then (ensure_static_row_is_written_if_needed env (ensure_tombstone_is_written env st))
       (\<lambda>st1. and_then (drain_loop env rts st1)
          (\<lambda>st2. case end_open_marker st2 of
                    Some m \<Rightarrow>
                      if (case pos of None \<Rightarrow> True
                          | Some p \<Rightarrow> less_compare env (rt_marker_position env m) p)
                      then flush_end_open_marker env st2
                      else Inr st2
                  | None \<Rightarrow> Inr st2))"

subsection \<open>Partition start and end\<close>

text \<open>\<^verbatim>\<open>write\<close> of a \<^verbatim>\<open>disk_string_view<uint16_t>\<close>: the length has to fit 16 bits.\<close>

definition write_disk_string16 :: "bytes \<Rightarrow> error + bytes" where
  "write_disk_string16 v =
     (if unat (of_nat (length v) :: 16 word) \<noteq> length v then Inl Overflow_error
      else Inr (be_bytes 2 (of_nat (length v) :: 16 word) @ v))"

text \<open>\<^verbatim>\<open>sstable_writer_m::consume_new_partition\<close>. The Bloom filter and the metadata
  collector are not the writer's and are left out.\<close>

definition consume_new_partition ::
  "writer_env \<Rightarrow> decorated_key \<Rightarrow> writer_state \<Rightarrow> error + writer_state" where
  "consume_new_partition env dk st =
     (let st1 = st\<lparr>start_offset := data_writer_offset st, prev_row_start := data_writer_offset st,
                   partition_key := Some (dk_key dk)\<rparr>;
          (s1, state1) = maybe_add_summary_entry (writer_summary st1) (dk_token dk) (dk_key dk)
                           (get_data_offset env st1) (of_nat (length (index st1)))
                           (sampling_state st1);
          st2 = st1\<lparr>writer_summary := s1, sampling_state := state1\<rparr>
      in and_then (write_disk_string16 (dk_key dk))
           (\<lambda>p_key.
              (let st3 = st2\<lparr>index := index st2 @ p_key @ write_vint env (data_writer_offset st2)\<rparr>;
                   st4 = st3\<lparr>promoted_index := [], pi_tomb := empty_tombstone,
                             first_clustering := None, last_clustering := None\<rparr>;
                   st5 = write_data env (Partition_key (dk_key dk)) st4;
                   st6 = st5\<lparr>partition_header_length :=
                               data_writer_offset st5 - start_offset st5\<rparr>
               in Inr (st6\<lparr>tombstone_written := False, static_row_written := False\<rparr>))))"

text \<open>The numbers of the kinds of \<^verbatim>\<open>bound_kind_m\<close>, one byte on disk.\<close>

fun bound_kind_m_code :: "bound_kind_m \<Rightarrow> byte" where
  "bound_kind_m_code excl_end_m = 0"
| "bound_kind_m_code incl_start_m = 1"
| "bound_kind_m_code excl_end_incl_start_m = 2"
| "bound_kind_m_code static_clustering_m = 3"
| "bound_kind_m_code clustering_m = 4"
| "bound_kind_m_code incl_end_excl_start_m = 5"
| "bound_kind_m_code incl_end_m = 6"
| "bound_kind_m_code excl_start_m = 7"

text \<open>\<^verbatim>\<open>write_clustering_prefix(writer, kind, s, clustering)\<close>: the kind, for a bound the
  number of components, then the prefix by the schema's encoder.\<close>

definition write_clustering_prefix ::
  "writer_env \<Rightarrow> bound_kind_m \<Rightarrow> clustering_key_prefix \<Rightarrow> error + bytes" where
  "write_clustering_prefix env kind clustering =
     (if kind = static_clustering_m
      then Inl (Assertion_failed ''kind != bound_kind_m::static_clustering'')
      else if kind \<noteq> clustering_m
      then Inr (bound_kind_m_code kind # be_bytes 2 (clustering_size env clustering)
                @ write_clustering_prefix_of_schema env clustering False)
      else Inr (bound_kind_m_code kind
                # write_clustering_prefix_of_schema env clustering (is_compact_table env)))"

definition write_deletion_time :: "deletion_time_struct \<Rightarrow> bytes" where
  "write_deletion_time d =
     be_bytes 4 (local_deletion_time d) @ be_bytes 8 (marked_for_delete_at d)"

definition write_pi_block :: "writer_env \<Rightarrow> pi_block \<Rightarrow> error + bytes" where
  "write_pi_block env block =
     and_then (write_clustering_prefix env (ci_kind (pib_first block))
                 (ci_clustering (pib_first block)))
       (\<lambda>first. and_then (write_clustering_prefix env (ci_kind (pib_last block))
                            (ci_clustering (pib_last block)))
          (\<lambda>last. Inr (first @ last @ write_vint env (pib_offset block)
                        @ write_signed_vint env (pib_width block - 65536)
                        @ (case pib_open_marker block of
                             Some t \<Rightarrow> 1 # write_deletion_time (to_deletion_time t)
                           | None \<Rightarrow> [0]))))"

text \<open>The loop over the blocks: the bytes written so far and the 32-bit offset of each block
  from the start of the blocks.\<close>

fun write_pi_blocks ::
  "writer_env \<Rightarrow> pi_block list \<Rightarrow> bytes \<Rightarrow> u32 list \<Rightarrow> error + (bytes \<times> u32 list)" where
  "write_pi_blocks env [] written offs = Inr (written, offs)"
| "write_pi_blocks env (block # blocks) written offs =
     and_then (write_pi_block env block)
       (\<lambda>b. write_pi_blocks env blocks (written @ b) (offs @ [of_nat (length written)]))"

text \<open>\<^verbatim>\<open>write_promoted_index\<close>, as the bytes it writes.\<close>

definition write_promoted_index :: "writer_env \<Rightarrow> writer_state \<Rightarrow> error + bytes" where
  "write_promoted_index env st =
     and_then (write_pi_blocks env (promoted_index st) [] [])
       (\<lambda>(blocks, offs).
          Inr (write_vint env (partition_header_length st)
               @ write_deletion_time (to_deletion_time (pi_tomb st))
               @ write_vint env (of_nat (length (promoted_index st)))
               @ blocks
               @ concat (map (be_bytes 4) offs)))"

text \<open>The promoted index part of \<^verbatim>\<open>consume_end_of_partition\<close>: a last block if one is
  open, then the size and the promoted index into the index file.\<close>

definition add_last_pi_block :: "writer_state \<Rightarrow> error + writer_state" where
  "add_last_pi_block st =
     (if promoted_index st \<noteq> [] \<and> first_clustering st \<noteq> None then add_pi_block st
      else Inr st)"

definition write_index_promoted :: "writer_env \<Rightarrow> writer_state \<Rightarrow> error + writer_state" where
  "write_index_promoted env st =
     (if length (promoted_index st) < 2
      then Inr (st\<lparr>index := index st @ write_vint env 0\<rparr>)
      else and_then (write_promoted_index env st)
             (\<lambda>pi. Inr (st\<lparr>index := index st @ write_vint env (of_nat (length pi)) @ pi\<rparr>)))"

text \<open>\<^verbatim>\<open>sstable_writer_m::consume_end_of_partition\<close>; the result carries
  \<^verbatim>\<open>stop_iteration\<close>. The large-partition handler and the metadata collector are left
  out. The partition key is moved into the last key: the optional stays engaged and holds the
  moved-from, empty key.\<close>

definition consume_end_of_partition ::
  "writer_env \<Rightarrow> range_tombstone list \<Rightarrow> writer_state \<Rightarrow> error + (writer_state \<times> bool)" where
  "consume_end_of_partition env rts st =
     and_then (drain_tombstones env None rts st)
       (\<lambda>st1. and_then (add_last_pi_block (write_data env End_of_partition st1))
          (\<lambda>st2. and_then (write_index_promoted env st2)
             (\<lambda>st3.
                (case partition_key st3 of
                   None \<Rightarrow> Inl Out_of_bounds
                 | Some k \<Rightarrow>
                    (let st4 = st3\<lparr>partition_size := data_writer_offset st3 - start_offset st3\<rparr>;
                         st5 = st4\<lparr>start_offset := 0, rows_count := 0, partition_size := 0\<rparr>;
                         st6 = st5\<lparr>writer_first_key :=
                                     (if writer_first_key st5 = None then Some k
                                      else writer_first_key st5),
                                   writer_last_key := Some k, partition_key := Some []\<rparr>
                     in Inr (st6, \<not> get_data_offset env st6 < max_sstable_size env))))))"

subsection \<open>The stream of calls\<close>

text \<open>The calls a writer receives. A call that drains range tombstones comes with the range
  tombstones the stream hands out during it.\<close>

datatype event =
    New_partition decorated_key
  | Partition_tombstone tombstone
  | Static_row_event row
  | Clustering_row_event clustering_row "range_tombstone list"
  | Range_tombstone_event range_tombstone "range_tombstone list"
  | End_of_partition_event "range_tombstone list"

fun consume :: "writer_env \<Rightarrow> event \<Rightarrow> writer_state \<Rightarrow> error + writer_state" where
  "consume env (New_partition dk) st = consume_new_partition env dk st"
| "consume env (Partition_tombstone t) st = Inr (consume_tombstone env t st)"
| "consume env (Static_row_event sr) st = consume_static_row env sr st"
| "consume env (Clustering_row_event cr rts) st =
     and_then (drain_tombstones env (Some (after_key (cr_key cr))) rts st)
       (write_clustered_row env cr)"
| "consume env (Range_tombstone_event rt rts) st =
     drain_tombstones env (Some (rt_position rt)) rts st"
| "consume env (End_of_partition_event rts) st =
     and_then (consume_end_of_partition env rts st) (\<lambda>(st1, stop). Inr st1)"

fun consume_all :: "writer_env \<Rightarrow> event list \<Rightarrow> writer_state \<Rightarrow> error + writer_state" where
  "consume_all env [] st = Inr st"
| "consume_all env (e # es) st = and_then (consume env e st) (consume_all env es)"

text \<open>The events between the start and the end of a partition, as the data model orders
  them: at most one partition tombstone, then at most one static row, then clustering rows and
  range tombstones.\<close>

fun is_clustered_event :: "event \<Rightarrow> bool" where
  "is_clustered_event (Clustering_row_event cr rts) = True"
| "is_clustered_event (Range_tombstone_event rt rts) = True"
| "is_clustered_event _ = False"

fun after_static_row :: "event list \<Rightarrow> bool" where
  "after_static_row es = list_all is_clustered_event es"

fun after_tombstone :: "event list \<Rightarrow> bool" where
  "after_tombstone (Static_row_event sr # es) = after_static_row es"
| "after_tombstone es = after_static_row es"

fun partition_events :: "event list \<Rightarrow> bool" where
  "partition_events (Partition_tombstone t # es) = after_tombstone es"
| "partition_events es = after_tombstone es"

text \<open>The partition tombstone and the static row that the events supply, if any.\<close>

fun supplied_tombstone :: "event list \<Rightarrow> tombstone" where
  "supplied_tombstone (Partition_tombstone t # es) = t"
| "supplied_tombstone es = empty_tombstone"

fun supplied_static_row :: "event list \<Rightarrow> row" where
  "supplied_static_row (Partition_tombstone t # Static_row_event sr # es) = sr"
| "supplied_static_row (Static_row_event sr # es) = sr"
| "supplied_static_row es = []"

text \<open>What the writer keeps true of its state between the calls of one partition: the
  partition key is set, no clustering kept for the promoted index and no open end marker is of
  kind \<^verbatim>\<open>static_clustering\<close>, and the first clustering of a block is set only together with
  the last.\<close>

definition writer_invariant :: "writer_state \<Rightarrow> bool" where
  "writer_invariant st \<longleftrightarrow>
       (\<forall>m. end_open_marker st = Some m \<longrightarrow> rtm_kind m \<noteq> static_clustering_m)
     \<and> (\<forall>c. first_clustering st = Some c \<longrightarrow>
              ci_kind c \<noteq> static_clustering_m \<and> last_clustering st \<noteq> None)
     \<and> (\<forall>c. last_clustering st = Some c \<longrightarrow> ci_kind c \<noteq> static_clustering_m)
     \<and> list_all (\<lambda>b. ci_kind (pib_first b) \<noteq> static_clustering_m
                    \<and> ci_kind (pib_last b) \<noteq> static_clustering_m) (promoted_index st)
     \<and> partition_key st \<noteq> None"

text \<open>What writing range-tombstone markers does to a state: markers join the data file, and
  neither the index file nor the partition's header flags change.\<close>

definition markers_written :: "writer_state \<Rightarrow> writer_state \<Rightarrow> bool" where
  "markers_written st st' \<longleftrightarrow>
       index st' = index st
     \<and> partition_key st' = partition_key st
     \<and> tombstone_written st' = tombstone_written st
     \<and> static_row_written st' = static_row_written st
     \<and> (\<exists>ms. data st' = data st @ ms \<and> list_all is_rt_marker_item ms)"

text \<open>The records of the partition header that are still to be written in a state: the
  deletion time \<^verbatim>\<open>ensure_tombstone_is_written\<close> adds and the empty static row
  \<^verbatim>\<open>ensure_static_row_is_written_if_needed\<close> adds.\<close>

definition missing_header_items :: "writer_env \<Rightarrow> writer_state \<Rightarrow> data_item list" where
  "missing_header_items env st =
     (if tombstone_written st then [] else [Deletion_time (to_deletion_time empty_tombstone)])
     @ (if has_static_columns env \<and> \<not> static_row_written st then [Static_row []] else [])"

text \<open>The records of the partition header for a list of events: the deletion time of the
  supplied tombstone and, when the schema has static columns or a static row is supplied, the
  static row.\<close>

fun supplies_static_row :: "event list \<Rightarrow> bool" where
  "supplies_static_row (Partition_tombstone t # Static_row_event sr # es) = True"
| "supplies_static_row (Static_row_event sr # es) = True"
| "supplies_static_row es = False"

definition header_items :: "writer_env \<Rightarrow> event list \<Rightarrow> data_item list" where
  "header_items env es =
     Deletion_time (to_deletion_time (supplied_tombstone es))
     # (if has_static_columns env \<or> supplies_static_row es
        then [Static_row (supplied_static_row es)] else [])"

subsection \<open>A schema and a fresh writer for the examples\<close>

text \<open>Positions compare by clustering key and then by the weight of the bound: a start that
  includes the key and an end that excludes it lie before the key, the others after it.\<close>

fun bound_weight :: "bound_kind \<Rightarrow> int" where
  "bound_weight excl_end = -1"
| "bound_weight incl_start = -1"
| "bound_weight incl_end = 1"
| "bound_weight excl_start = 1"

fun position_key :: "position_in_partition \<Rightarrow> clustering_key_prefix \<times> int" where
  "position_key (range_tombstone_position ck k) = (ck, bound_weight k)"
| "position_key (after_key ck) = (ck, 1)"

definition example_less :: "position_in_partition \<Rightarrow> position_in_partition \<Rightarrow> bool" where
  "example_less p q \<longleftrightarrow>
     fst (position_key p) < fst (position_key q)
     \<or> (fst (position_key p) = fst (position_key q) \<and> snd (position_key p) < snd (position_key q))"

fun example_to_bound_kind :: "bound_kind_m \<Rightarrow> bound_kind" where
  "example_to_bound_kind excl_end_m = excl_end"
| "example_to_bound_kind incl_end_m = incl_end"
| "example_to_bound_kind excl_start_m = excl_start"
| "example_to_bound_kind _ = incl_start"

fun example_item_size :: "data_item \<Rightarrow> u64" where
  "example_item_size (Partition_key k) = of_nat (2 + length k)"
| "example_item_size (Deletion_time d) = 12"
| "example_item_size (Static_row r) = 4"
| "example_item_size (Clustering_row cr p) = 8"
| "example_item_size (Rt_marker m p) = 16"
| "example_item_size End_of_partition = 1"

definition example_env :: writer_env where
  "example_env =
     \<lparr>has_static_columns = True, is_compound = True, is_compact_table = False,
      compression_info = False, max_sstable_size = 1000000,
      equal_compare = (\<lambda>p q. position_key p = position_key q),
      less_compare = example_less,
      to_bound_kind = example_to_bound_kind,
      item_size = example_item_size,
      compressed_file_length = (\<lambda>d. 0),
      write_vint = be_bytes 8, write_signed_vint = be_bytes 8,
      clustering_size = (\<lambda>ck. of_nat (length ck)),
      write_clustering_prefix_of_schema = (\<lambda>ck full. concat ck)\<rparr>"

definition example_state :: writer_state where
  "example_state =
     \<lparr>data = [], data_writer_offset = 0, index = [], tombstone_written = False,
      static_row_written = False, partition_header_length = 0, prev_row_start = 0,
      partition_key = None, writer_first_key = None, writer_last_key = None,
      sampling_state = \<lparr>next_data_offset_to_write_summary = 0, partition_count = 0,
                         summary_byte_cost = 2000\<rparr>,
      writer_summary = \<lparr>header = \<lparr>min_index_interval = 128, size_hdr = 0, memory_size = 0,
                                    sampling_level = 128, size_at_full_sampling = 0\<rparr>,
                         positions = [], entries = [], first_key = [], last_key = []\<rparr>,
      end_open_marker = None, promoted_index = [], pi_tomb = empty_tombstone,
      block_start_offset = 0, block_next_start_offset = 0, first_clustering = None,
      last_clustering = None, desired_block_size = 65536, start_offset = 0, rows_count = 0,
      partition_size = 0\<rparr>"

text \<open>Example streams of one partition, and the states the writer reaches on them.\<close>

definition example_events_a :: "event list" where
  "example_events_a =
     [Clustering_row_event
        \<lparr>cr_key = [[5]], cr_tomb = empty_tombstone, cr_cells = [(0, [9])]\<rparr> []]"

definition example_result_a :: writer_state where
  "example_result_a =
     \<lparr>data =
        [Partition_key [1],
         Deletion_time
          \<lparr>local_deletion_time = 2147483647,
             marked_for_delete_at = 9223372036854775808\<rparr>,
         Static_row [],
         Clustering_row
          \<lparr>cr_key = [[5]],
             cr_tomb = \<lparr>timestamp = 9223372036854775808, deletion_time = 0\<rparr>,
             cr_cells = [(0, [9])]\<rparr>
          19,
         End_of_partition],
        data_writer_offset = 28,
        index = [0, 1, 1, 0, 0, 0, 0, 0, 0, 0, 0, 0, 0, 0, 0, 0, 0, 0, 0],
        tombstone_written = True, static_row_written = True,
        partition_header_length = 19, prev_row_start = 19,
        partition_key = Some [], writer_first_key = Some [1],
        writer_last_key = Some [1],
        sampling_state =
          \<lparr>next_data_offset_to_write_summary = 22000, partition_count = 1,
             summary_byte_cost = 2000\<rparr>,
        writer_summary =
          \<lparr>header =
             \<lparr>min_index_interval = 128, size_hdr = 0, memory_size = 0,
                sampling_level = 128, size_at_full_sampling = 0\<rparr>,
             positions = [],
             entries = [\<lparr>token = [7], key = [1], position = 0\<rparr>],
             first_key = [], last_key = []\<rparr>,
        end_open_marker = None, promoted_index = [],
        pi_tomb = \<lparr>timestamp = 9223372036854775808, deletion_time = 0\<rparr>,
        block_start_offset = 19, block_next_start_offset = 65555,
        first_clustering =
          Some \<lparr>ci_clustering = [[5]], ci_kind = clustering_m\<rparr>,
        last_clustering =
          Some \<lparr>ci_clustering = [[5]], ci_kind = clustering_m\<rparr>,
        desired_block_size = 65536, start_offset = 0, rows_count = 0,
        partition_size = 0\<rparr>"

definition example_events_b :: "event list" where
  "example_events_b =
     [Partition_tombstone \<lparr>timestamp = 10, deletion_time = 100\<rparr>,
      Static_row_event [(0, [3])],
      Range_tombstone_event
        \<lparr>rt_start = [[2]], rt_start_kind = incl_start, rt_end = [[4]], rt_end_kind = incl_end,
         rt_tomb = \<lparr>timestamp = 20, deletion_time = 200\<rparr>\<rparr> [],
      Clustering_row_event
        \<lparr>cr_key = [[5]], cr_tomb = empty_tombstone, cr_cells = [(0, [9])]\<rparr>
        [\<lparr>rt_start = [[2]], rt_start_kind = incl_start, rt_end = [[4]], rt_end_kind = incl_end,
          rt_tomb = \<lparr>timestamp = 20, deletion_time = 200\<rparr>\<rparr>]]"

definition example_result_b :: writer_state where
  "example_result_b =
     \<lparr>data =
        [Partition_key [1],
         Deletion_time
          \<lparr>local_deletion_time = 100, marked_for_delete_at = 10\<rparr>,
         Static_row [(0, [3])],
         Rt_marker
          \<lparr>rtm_clustering = [[2]], rtm_kind = incl_start_m,
             rtm_tomb = \<lparr>timestamp = 20, deletion_time = 200\<rparr>,
             rtm_boundary_tomb = None\<rparr>
          19,
         Rt_marker
          \<lparr>rtm_clustering = [[4]], rtm_kind = incl_end_m,
             rtm_tomb = \<lparr>timestamp = 20, deletion_time = 200\<rparr>,
             rtm_boundary_tomb = None\<rparr>
          16,
         Clustering_row
          \<lparr>cr_key = [[5]],
             cr_tomb = \<lparr>timestamp = 9223372036854775808, deletion_time = 0\<rparr>,
             cr_cells = [(0, [9])]\<rparr>
          16,
         End_of_partition],
        data_writer_offset = 60,
        index = [0, 1, 1, 0, 0, 0, 0, 0, 0, 0, 0, 0, 0, 0, 0, 0, 0, 0, 0],
        tombstone_written = True, static_row_written = True,
        partition_header_length = 19, prev_row_start = 51,
        partition_key = Some [], writer_first_key = Some [1],
        writer_last_key = Some [1],
        sampling_state =
          \<lparr>next_data_offset_to_write_summary = 22000, partition_count = 1,
             summary_byte_cost = 2000\<rparr>,
        writer_summary =
          \<lparr>header =
             \<lparr>min_index_interval = 128, size_hdr = 0, memory_size = 0,
                sampling_level = 128, size_at_full_sampling = 0\<rparr>,
             positions = [],
             entries = [\<lparr>token = [7], key = [1], position = 0\<rparr>],
             first_key = [], last_key = []\<rparr>,
        end_open_marker = None, promoted_index = [],
        pi_tomb = \<lparr>timestamp = 10, deletion_time = 100\<rparr>,
        block_start_offset = 19, block_next_start_offset = 65555,
        first_clustering =
          Some \<lparr>ci_clustering = [[2]], ci_kind = incl_start_m\<rparr>,
        last_clustering =
          Some \<lparr>ci_clustering = [[5]], ci_kind = clustering_m\<rparr>,
        desired_block_size = 65536, start_offset = 0, rows_count = 0,
        partition_size = 0\<rparr>"

definition example_partition_end :: writer_state where
  "example_partition_end =
     example_state\<lparr>partition_key := Some [1], tombstone_written := True,
        static_row_written := True, data := [Partition_key [1]], data_writer_offset := 3,
        promoted_index :=
          [\<lparr>pib_first = \<lparr>ci_clustering = [[1]], ci_kind = clustering_m\<rparr>,
            pib_last = \<lparr>ci_clustering = [[2]], ci_kind = clustering_m\<rparr>,
            pib_offset = 0, pib_width = 65540, pib_open_marker = None\<rparr>],
        first_clustering := Some \<lparr>ci_clustering = [[3]], ci_kind = clustering_m\<rparr>,
        last_clustering := Some \<lparr>ci_clustering = [[4]], ci_kind = incl_end_m\<rparr>,
        block_start_offset := 2\<rparr>"

definition example_partition_end_result :: writer_state where
  "example_partition_end_result =
     \<lparr>data = [Partition_key [1], End_of_partition], data_writer_offset = 4,
         index =
           [0, 0, 0, 0, 0, 0, 0, 80, 0, 0, 0, 0, 0, 0, 0, 0, 127, 255, 255,
            255, 128, 0, 0, 0, 0, 0, 0, 0, 0, 0, 0, 0, 0, 0, 0, 2, 4, 1, 4,
            2, 0, 0, 0, 0, 0, 0, 0, 0, 0, 0, 0, 0, 0, 0, 0, 4, 0, 4, 3, 6,
            0, 1, 4, 0, 0, 0, 0, 0, 0, 0, 2, 255, 255, 255, 255, 255, 255,
            0, 2, 0, 0, 0, 0, 0, 0, 0, 0, 21],
         tombstone_written = True, static_row_written = True,
         partition_header_length = 0, prev_row_start = 0,
         partition_key = Some [], writer_first_key = Some [1],
         writer_last_key = Some [1],
         sampling_state =
           \<lparr>next_data_offset_to_write_summary = 0, partition_count = 0,
              summary_byte_cost = 2000\<rparr>,
         writer_summary =
           \<lparr>header =
              \<lparr>min_index_interval = 128, size_hdr = 0, memory_size = 0,
                 sampling_level = 128, size_at_full_sampling = 0\<rparr>,
              positions = [], entries = [], first_key = [], last_key = []\<rparr>,
         end_open_marker = None,
         promoted_index =
           [\<lparr>pib_first = \<lparr>ci_clustering = [[1]], ci_kind = clustering_m\<rparr>,
               pib_last = \<lparr>ci_clustering = [[2]], ci_kind = clustering_m\<rparr>,
               pib_offset = 0, pib_width = 65540, pib_open_marker = None\<rparr>,
            \<lparr>pib_first = \<lparr>ci_clustering = [[3]], ci_kind = clustering_m\<rparr>,
               pib_last = \<lparr>ci_clustering = [[4]], ci_kind = incl_end_m\<rparr>,
               pib_offset = 2, pib_width = 2, pib_open_marker = None\<rparr>],
         pi_tomb = \<lparr>timestamp = 9223372036854775808, deletion_time = 0\<rparr>,
         block_start_offset = 2, block_next_start_offset = 0,
         first_clustering =
           Some \<lparr>ci_clustering = [[3]], ci_kind = clustering_m\<rparr>,
         last_clustering =
           Some \<lparr>ci_clustering = [[4]], ci_kind = incl_end_m\<rparr>,
         desired_block_size = 65536, start_offset = 0, rows_count = 0,
         partition_size = 0\<rparr>"

subsection \<open>The writer of the \<^verbatim>\<open>ka\<close> and \<^verbatim>\<open>la\<close> formats\<close>

text \<open>The data file of \<^verbatim>\<open>components_writer\<close> as the sequence of its writes: the partition
  key, the deletion time of the partition, the bytes that one call of a row writer of the sstable
  object puts out (column names, cells, range tombstones), and the end-of-row mark.\<close>

datatype kl_item =
    Kl_partition_key bytes
  | Kl_deletion_time deletion_time_struct
  | Kl_atoms bytes
  | Kl_end_of_row

fun kl_item_size :: "kl_item \<Rightarrow> u64" where
  "kl_item_size (Kl_partition_key k) = 2 + of_nat (length k)"
| "kl_item_size (Kl_deletion_time d) = 12"
| "kl_item_size (Kl_atoms b) = of_nat (length b)"
| "kl_item_size Kl_end_of_row = 2"

fun is_kl_deletion_time_item :: "kl_item \<Rightarrow> bool" where
  "is_kl_deletion_time_item (Kl_deletion_time d) = True"
| "is_kl_deletion_time_item _ = False"

text \<open>\<^verbatim>\<open>_sst._pi_write\<close>, the promoted index under construction. The accumulator of open
  range tombstones is a class declared elsewhere; it is kept as the tombstones applied to it.\<close>

record promoted_index_write =
  pi_data :: bytes
  pi_numblocks :: u32
  pi_deltime :: deletion_time_struct
  pi_block_start_offset :: u64
  pi_block_next_start_offset :: u64
  pi_block_first_colname :: bytes
  pi_block_last_colname :: bytes
  pi_desired_block_size :: u64
  pi_tombstone_accumulator :: "range_tombstone list"

record components_writer_state =
  cw_data :: "kl_item list"
  cw_out_offset :: u64
  cw_index :: bytes
  cw_tombstone_written :: bool
  cw_partition_key :: "bytes option"
  cw_first_key :: "bytes option"
  cw_last_key :: "bytes option"
  cw_sampling_state :: index_sampling_state
  cw_summary :: summary
  cw_pi_write :: promoted_index_write
  cw_start_offset :: u64
  cw_partition_size :: u64

text \<open>\<^verbatim>\<open>sstable::write_static_row\<close>, \<^verbatim>\<open>sstable::write_clustered_row\<close> and the two calls
  of \<^verbatim>\<open>components_writer::write_tombstone\<close> (\<^verbatim>\<open>index_tombstone\<close>,
  \<^verbatim>\<open>write_range_tombstone\<close>) write column names and cells through encoders declared elsewhere,
  flush blocks of the promoted index and repeat the open range tombstones at the start of a
  block. They are parameters here: from the offset of the data file and the promoted index under
  construction they give the bytes written to the data file and the promoted index after the
  call, or the error raised.\<close>

record components_writer_env =
  cw_is_compound :: bool
  cw_compression_info :: bool
  cw_compressed_file_length :: "kl_item list \<Rightarrow> u64"
  cw_max_sstable_size :: u64
  write_static_row_cells ::
    "row \<Rightarrow> u64 \<Rightarrow> promoted_index_write \<Rightarrow> error + (bytes \<times> promoted_index_write)"
  write_clustered_row_cells ::
    "clustering_row \<Rightarrow> u64 \<Rightarrow> promoted_index_write \<Rightarrow> error + (bytes \<times> promoted_index_write)"
  write_range_tombstone_atoms ::
    "range_tombstone \<Rightarrow> u64 \<Rightarrow> promoted_index_write \<Rightarrow> error + (bytes \<times> promoted_index_write)"

text \<open>A write to the data file.\<close>

definition cw_write :: "kl_item \<Rightarrow> components_writer_state \<Rightarrow> components_writer_state" where
  "cw_write it st =
     st\<lparr>cw_data := cw_data st @ [it], cw_out_offset := cw_out_offset st + kl_item_size it\<rparr>"

text \<open>\<^verbatim>\<open>components_writer::get_offset\<close>.\<close>

definition get_offset :: "components_writer_env \<Rightarrow> components_writer_state \<Rightarrow> u64" where
  "get_offset env st =
     (if cw_compression_info env then cw_compressed_file_length env (cw_data st)
      else cw_out_offset st)"

text \<open>\<^verbatim>\<open>write_index_header\<close>: the key as a string with a 16-bit length, then the position.\<close>

definition write_index_header :: "bytes \<Rightarrow> u64 \<Rightarrow> error + bytes" where
  "write_index_header k pos =
     and_then (write_disk_string16 k) (\<lambda>p_key. Inr (p_key @ be_bytes 8 pos))"

text \<open>\<^verbatim>\<open>output_promoted_index_entry\<close>; the lengths are cast to 16 bits.\<close>

definition output_promoted_index_entry :: "bytes \<Rightarrow> bytes \<Rightarrow> bytes \<Rightarrow> u64 \<Rightarrow> u64 \<Rightarrow> bytes" where
  "output_promoted_index_entry buf first_col last_col offset width =
     buf
     @ be_bytes 2 (of_nat (length first_col) :: 16 word) @ first_col
     @ be_bytes 2 (of_nat (length last_col) :: 16 word) @ last_col
     @ be_bytes 8 offset @ be_bytes 8 width"

text \<open>The static \<^verbatim>\<open>write_index_promoted\<close> of the older formats.\<close>

definition write_index_promoted_ka_la :: "bytes \<Rightarrow> deletion_time_struct \<Rightarrow> u32 \<Rightarrow> bytes" where
  "write_index_promoted_ka_la buf deltime numblocks =
     (let promoted_index_size = (of_nat (length buf) :: u32) in
      if promoted_index_size \<noteq> 0
      then be_bytes 4 (promoted_index_size + 16) @ write_deletion_time deltime
           @ be_bytes 4 numblocks @ buf
      else be_bytes 4 promoted_index_size)"

text \<open>\<^verbatim>\<open>components_writer::consume_new_partition\<close>. The Bloom filter and the metadata
  collector are left out.\<close>

definition components_writer_consume_new_partition ::
  "components_writer_env \<Rightarrow> decorated_key \<Rightarrow> components_writer_state
     \<Rightarrow> error + components_writer_state" where
  "components_writer_consume_new_partition env dk st =
     (let st1 = st\<lparr>cw_start_offset := cw_out_offset st, cw_partition_key := Some (dk_key dk)\<rparr>;
          (s1, state1) = maybe_add_summary_entry (cw_summary st1) (dk_token dk) (dk_key dk)
                           (get_offset env st1) (of_nat (length (cw_index st1)))
                           (cw_sampling_state st1);
          st2 = st1\<lparr>cw_summary := s1, cw_sampling_state := state1\<rparr>
      in and_then (write_index_header (dk_key dk) (cw_out_offset st2))
           (\<lambda>h.
              (let st3 = st2\<lparr>cw_index := cw_index st2 @ h\<rparr>;
                   st4 = st3\<lparr>cw_pi_write := (cw_pi_write st3)
                            \<lparr>pi_data := [], pi_numblocks := 0,
                             pi_deltime := \<lparr>local_deletion_time = 0x7FFFFFFF,
                                            marked_for_delete_at = 0x8000000000000000\<rparr>,
                             pi_block_start_offset := cw_out_offset st3,
                             pi_tombstone_accumulator := []\<rparr>\<rparr>
               in and_then (write_disk_string16 (dk_key dk))
                    (\<lambda>p_key. Inr ((cw_write (Kl_partition_key (dk_key dk)) st4)
                                     \<lparr>cw_tombstone_written := False\<rparr>)))))"

text \<open>\<^verbatim>\<open>components_writer::consume(tombstone)\<close>. The statistics it feeds are left out.\<close>

definition components_writer_consume_tombstone ::
  "tombstone \<Rightarrow> components_writer_state \<Rightarrow> components_writer_state" where
  "components_writer_consume_tombstone t st =
     (let d = (if tombstone_set t
               then \<lparr>local_deletion_time = ucast (deletion_time t),
                     marked_for_delete_at = timestamp t\<rparr>
               else \<lparr>local_deletion_time = 0x7FFFFFFF,
                     marked_for_delete_at = 0x8000000000000000\<rparr>);
          st1 = cw_write (Kl_deletion_time d) st;
          st2 = st1\<lparr>cw_tombstone_written := True\<rparr>
      in st2\<lparr>cw_pi_write := (cw_pi_write st2)\<lparr>pi_deltime := d\<rparr>\<rparr>)"

text \<open>Modelled from the spec: \<^verbatim>\<open>components_writer::ensure_tombstone_is_written\<close> is
  declared in the header of the class, which is not among the sources. The spec has the writer
  ensure that the tombstone is written before a static row; as its namesake in
  \<^verbatim>\<open>sstable_writer_m\<close>, it consumes the default-constructed tombstone unless one was
  written.\<close>

definition components_writer_ensure_tombstone_is_written ::
  "components_writer_state \<Rightarrow> components_writer_state" where
  "components_writer_ensure_tombstone_is_written st =
     (if \<not> cw_tombstone_written st then components_writer_consume_tombstone empty_tombstone st
      else st)"

text \<open>\<^verbatim>\<open>sstable::write_static_row\<close> asserts a compound schema before it writes the
  cells.\<close>

definition sstable_write_static_row ::
  "components_writer_env \<Rightarrow> row \<Rightarrow> components_writer_state \<Rightarrow> error + components_writer_state" where
  "sstable_write_static_row env r st =
     (if \<not> cw_is_compound env then Inl (Assertion_failed ''schema.is_compound()'')
      else and_then (write_static_row_cells env r (cw_out_offset st) (cw_pi_write st))
             (\<lambda>(b, pw). Inr ((cw_write (Kl_atoms b) st)\<lparr>cw_pi_write := pw\<rparr>)))"

definition sstable_write_clustered_row ::
  "components_writer_env \<Rightarrow> clustering_row \<Rightarrow> components_writer_state
     \<Rightarrow> error + components_writer_state" where
  "sstable_write_clustered_row env cr st =
     and_then (write_clustered_row_cells env cr (cw_out_offset st) (cw_pi_write st))
       (\<lambda>(b, pw). Inr ((cw_write (Kl_atoms b) st)\<lparr>cw_pi_write := pw\<rparr>))"

text \<open>\<^verbatim>\<open>components_writer::write_tombstone\<close>.\<close>

definition components_writer_write_tombstone ::
  "components_writer_env \<Rightarrow> range_tombstone \<Rightarrow> components_writer_state
     \<Rightarrow> error + components_writer_state" where
  "components_writer_write_tombstone env rt st =
     and_then (write_range_tombstone_atoms env rt (cw_out_offset st) (cw_pi_write st))
       (\<lambda>(b, pw). Inr ((cw_write (Kl_atoms b) st)\<lparr>cw_pi_write := pw\<rparr>))"

text \<open>\<^verbatim>\<open>components_writer::drain_tombstones\<close>, both overloads; \<open>rts\<close> are the range
  tombstones that the stream's \<^verbatim>\<open>get_next\<close> returns during the call, in order.\<close>

fun components_writer_write_tombstones ::
  "components_writer_env \<Rightarrow> range_tombstone list \<Rightarrow> components_writer_state
     \<Rightarrow> error + components_writer_state" where
  "components_writer_write_tombstones env [] st = Inr st"
| "components_writer_write_tombstones env (rt # rts) st =
     and_then (components_writer_write_tombstone env rt st)
       (components_writer_write_tombstones env rts)"

definition components_writer_drain_tombstones ::
  "components_writer_env \<Rightarrow> range_tombstone list \<Rightarrow> components_writer_state
     \<Rightarrow> error + components_writer_state" where
  "components_writer_drain_tombstones env rts st =
     components_writer_write_tombstones env rts (components_writer_ensure_tombstone_is_written st)"

text \<open>\<^verbatim>\<open>components_writer::consume(static_row&&)\<close> and
  \<^verbatim>\<open>components_writer::consume(clustering_row&&)\<close>.\<close>

definition components_writer_consume_static_row ::
  "components_writer_env \<Rightarrow> row \<Rightarrow> components_writer_state \<Rightarrow> error + components_writer_state" where
  "components_writer_consume_static_row env sr st =
     sstable_write_static_row env sr (components_writer_ensure_tombstone_is_written st)"

definition components_writer_consume_clustering_row ::
  "components_writer_env \<Rightarrow> clustering_row \<Rightarrow> range_tombstone list \<Rightarrow> components_writer_state
     \<Rightarrow> error + components_writer_state" where
  "components_writer_consume_clustering_row env cr rts st =
     and_then (components_writer_drain_tombstones env rts st) (sstable_write_clustered_row env cr)"

text \<open>\<^verbatim>\<open>components_writer::consume_end_of_partition\<close>; the result carries
  \<^verbatim>\<open>stop_iteration\<close>. The large-partition handler and the metadata collector are left out.
  The partition key is moved into the last key: the optional stays engaged and holds the
  moved-from, empty key.\<close>

definition components_writer_consume_end_of_partition ::
  "components_writer_env \<Rightarrow> range_tombstone list \<Rightarrow> components_writer_state
     \<Rightarrow> error + (components_writer_state \<times> bool)" where
  "components_writer_consume_end_of_partition env rts st =
     and_then (components_writer_drain_tombstones env rts st)
       (\<lambda>st1.
          (let pw = cw_pi_write st1;
               pw1 = (if pi_data pw \<noteq> [] \<and> pi_block_first_colname pw \<noteq> []
                      then pw\<lparr>pi_data := output_promoted_index_entry (pi_data pw)
                                  (pi_block_first_colname pw) (pi_block_last_colname pw)
                                  (pi_block_start_offset pw - cw_start_offset st1)
                                  (cw_out_offset st1 - pi_block_start_offset pw),
                              pi_numblocks := pi_numblocks pw + 1\<rparr>
                      else pw);
               st2 = st1\<lparr>cw_index := cw_index st1
                            @ write_index_promoted_ka_la (pi_data pw1) (pi_deltime pw1)
                                (pi_numblocks pw1),
                         cw_pi_write := pw1\<lparr>pi_data := [], pi_block_first_colname := []\<rparr>\<rparr>;
               st3 = cw_write Kl_end_of_row st2;
               st4 = st3\<lparr>cw_partition_size := cw_out_offset st3 - cw_start_offset st3\<rparr>
           in case cw_partition_key st4 of
                None \<Rightarrow> Inl Out_of_bounds
              | Some k \<Rightarrow>
                  (let st5 = st4\<lparr>cw_start_offset := 0, cw_partition_size := 0\<rparr>;
                       st6 = st5\<lparr>cw_first_key :=
                                   (if cw_first_key st5 = None then Some k else cw_first_key st5),
                                 cw_last_key := Some k, cw_partition_key := Some []\<rparr>
                   in Inr (st6, \<not> get_offset env st6 < cw_max_sstable_size env))))"

text \<open>The calls this writer receives.\<close>

fun components_writer_consume ::
  "components_writer_env \<Rightarrow> event \<Rightarrow> components_writer_state \<Rightarrow> error + components_writer_state" where
  "components_writer_consume env (New_partition dk) st =
     components_writer_consume_new_partition env dk st"
| "components_writer_consume env (Partition_tombstone t) st =
     Inr (components_writer_consume_tombstone t st)"
| "components_writer_consume env (Static_row_event sr) st =
     components_writer_consume_static_row env sr st"
| "components_writer_consume env (Clustering_row_event cr rts) st =
     components_writer_consume_clustering_row env cr rts st"
| "components_writer_consume env (Range_tombstone_event rt rts) st =
     components_writer_drain_tombstones env rts st"
| "components_writer_consume env (End_of_partition_event rts) st =
     and_then (components_writer_consume_end_of_partition env rts st) (\<lambda>(st1, stop). Inr st1)"

fun components_writer_consume_all ::
  "components_writer_env \<Rightarrow> event list \<Rightarrow> components_writer_state
     \<Rightarrow> error + components_writer_state" where
  "components_writer_consume_all env [] st = Inr st"
| "components_writer_consume_all env (e # es) st =
     and_then (components_writer_consume env e st) (components_writer_consume_all env es)"

text \<open>The row writers of the sstable object return for every row and range tombstone.\<close>

definition row_writers_return :: "components_writer_env \<Rightarrow> bool" where
  "row_writers_return env \<longleftrightarrow>
       (\<forall>r off pw. \<exists>x. write_static_row_cells env r off pw = Inr x)
     \<and> (\<forall>cr off pw. \<exists>x. write_clustered_row_cells env cr off pw = Inr x)
     \<and> (\<forall>rt off pw. \<exists>x. write_range_tombstone_atoms env rt off pw = Inr x)"

text \<open>What the calls after the partition tombstone do to a state in which the tombstone is
  written: it stays written, the partition key stays, and what joins the data file is no
  deletion time.\<close>

definition rows_written :: "components_writer_state \<Rightarrow> components_writer_state \<Rightarrow> bool" where
  "rows_written st st' \<longleftrightarrow>
       cw_tombstone_written st'
     \<and> cw_partition_key st' = cw_partition_key st
     \<and> (\<exists>xs. cw_data st' = cw_data st @ xs \<and> \<not> list_ex is_kl_deletion_time_item xs)"

text \<open>An example environment and state of this writer, and the states it reaches on the
  example streams.\<close>

definition example_cw_env :: components_writer_env where
  "example_cw_env =
     \<lparr>cw_is_compound = True, cw_compression_info = False,
      cw_compressed_file_length = (\<lambda>d. 0), cw_max_sstable_size = 1000000,
      write_static_row_cells = (\<lambda>r off pw. Inr (concat (map snd r), pw)),
      write_clustered_row_cells = (\<lambda>cr off pw. Inr (concat (cr_key cr) @ concat (map snd (cr_cells cr)), pw)),
      write_range_tombstone_atoms = (\<lambda>rt off pw. Inr (concat (rt_start rt) @ concat (rt_end rt), pw))\<rparr>"

definition example_cw_state :: components_writer_state where
  "example_cw_state =
     \<lparr>cw_data = [], cw_out_offset = 0, cw_index = [], cw_tombstone_written = False,
      cw_partition_key = None, cw_first_key = None, cw_last_key = None,
      cw_sampling_state = \<lparr>next_data_offset_to_write_summary = 0, partition_count = 0,
                            summary_byte_cost = 2000\<rparr>,
      cw_summary = \<lparr>header = \<lparr>min_index_interval = 128, size_hdr = 0, memory_size = 0,
                                sampling_level = 128, size_at_full_sampling = 0\<rparr>,
                     positions = [], entries = [], first_key = [], last_key = []\<rparr>,
      cw_pi_write = \<lparr>pi_data = [], pi_numblocks = 0,
                      pi_deltime = \<lparr>local_deletion_time = 0, marked_for_delete_at = 0\<rparr>,
                      pi_block_start_offset = 0, pi_block_next_start_offset = 0,
                      pi_block_first_colname = [], pi_block_last_colname = [],
                      pi_desired_block_size = 65536, pi_tombstone_accumulator = []\<rparr>,
      cw_start_offset = 0, cw_partition_size = 0\<rparr>"

definition example_cw_result_a :: components_writer_state where
  "example_cw_result_a =
     \<lparr>cw_data =
        [Kl_partition_key [1],
         Kl_deletion_time
          \<lparr>local_deletion_time = 2147483647,
             marked_for_delete_at = 9223372036854775808\<rparr>,
         Kl_atoms [5, 9], Kl_end_of_row],
        cw_out_offset = 19,
        cw_index = [0, 1, 1, 0, 0, 0, 0, 0, 0, 0, 0, 0, 0, 0, 0],
        cw_tombstone_written = True, cw_partition_key = Some [],
        cw_first_key = Some [1], cw_last_key = Some [1],
        cw_sampling_state =
          \<lparr>next_data_offset_to_write_summary = 22000, partition_count = 1,
             summary_byte_cost = 2000\<rparr>,
        cw_summary =
          \<lparr>header =
             \<lparr>min_index_interval = 128, size_hdr = 0, memory_size = 0,
                sampling_level = 128, size_at_full_sampling = 0\<rparr>,
             positions = [],
             entries = [\<lparr>token = [7], key = [1], position = 0\<rparr>],
             first_key = [], last_key = []\<rparr>,
        cw_pi_write =
          \<lparr>pi_data = [], pi_numblocks = 0,
             pi_deltime =
               \<lparr>local_deletion_time = 2147483647,
                  marked_for_delete_at = 9223372036854775808\<rparr>,
             pi_block_start_offset = 0, pi_block_next_start_offset = 0,
             pi_block_first_colname = [], pi_block_last_colname = [],
             pi_desired_block_size = 65536, pi_tombstone_accumulator = []\<rparr>,
        cw_start_offset = 0, cw_partition_size = 0\<rparr>"

definition example_cw_result_b :: components_writer_state where
  "example_cw_result_b =
     \<lparr>cw_data =
        [Kl_partition_key [1],
         Kl_deletion_time
          \<lparr>local_deletion_time = 100, marked_for_delete_at = 10\<rparr>,
         Kl_atoms [3], Kl_atoms [2, 4], Kl_atoms [5, 9], Kl_end_of_row],
        cw_out_offset = 22,
        cw_index = [0, 1, 1, 0, 0, 0, 0, 0, 0, 0, 0, 0, 0, 0, 0],
        cw_tombstone_written = True, cw_partition_key = Some [],
        cw_first_key = Some [1], cw_last_key = Some [1],
        cw_sampling_state =
          \<lparr>next_data_offset_to_write_summary = 22000, partition_count = 1,
             summary_byte_cost = 2000\<rparr>,
        cw_summary =
          \<lparr>header =
             \<lparr>min_index_interval = 128, size_hdr = 0, memory_size = 0,
                sampling_level = 128, size_at_full_sampling = 0\<rparr>,
             positions = [],
             entries = [\<lparr>token = [7], key = [1], position = 0\<rparr>],
             first_key = [], last_key = []\<rparr>,
        cw_pi_write =
          \<lparr>pi_data = [], pi_numblocks = 0,
             pi_deltime =
               \<lparr>local_deletion_time = 100, marked_for_delete_at = 10\<rparr>,
             pi_block_start_offset = 0, pi_block_next_start_offset = 0,
             pi_block_first_colname = [], pi_block_last_colname = [],
             pi_desired_block_size = 65536, pi_tombstone_accumulator = []\<rparr>,
        cw_start_offset = 0, cw_partition_size = 0\<rparr>"

section \<open>Properties of the summary\<close>

lemma take_bit_add_narrow:
  fixes a b :: int
  assumes "m \<le> n"
  shows "take_bit m (take_bit n (a + b)) = take_bit m (take_bit n a + take_bit n b)"
proof -
  have *: "take_bit m (take_bit n x) = take_bit m x" for x :: int
    using assms by (simp add: min_def)
  have "take_bit m (take_bit n a + take_bit n b)
      = take_bit m (take_bit m (take_bit n a) + take_bit m (take_bit n b))"
    by (simp only: take_bit_add)
  also have "\<dots> = take_bit m (take_bit m a + take_bit m b)"
    by (simp only: *)
  also have "\<dots> = take_bit m (a + b)"
    by (simp only: take_bit_add)
  finally show ?thesis
    by (simp only: *)
qed

lemma ucast_add_64_32: "(ucast (a + b :: u64) :: u32) = ucast a + ucast b"
  by transfer (rule take_bit_add_narrow, simp)

lemma ucast_ucast_32_64: "(ucast (ucast (x :: u32) :: u64) :: u32) = x"
  by (rule bit_word_eqI) (auto simp: bit_simps)

lemma ucast_times4_64_32: "(ucast (ucast (x :: u32) * 4 :: u64) :: u32) = x * 4"
proof -
  have "ucast x * (4 :: u64) = ucast x + ucast x + ucast x + ucast x"
    by simp
  then show ?thesis
    by (simp only: ucast_add_64_32 ucast_ucast_32_64) simp
qed

lemma seal_loop_eq:
  "seal_loop es ps ms =
     (ps @ map (\<lambda>i. ucast (ms + sum_list (map entry_bytes (take i es)))) [0..<length es],
      ms + sum_list (map entry_bytes es))"
proof (induction es arbitrary: ps ms)
  case Nil
  then show ?case by simp
next
  case (Cons e es)
  have upt: "[0..<length (e # es)] = 0 # map Suc [0..<length es]"
    by (simp add: upt_conv_Cons map_Suc_upt del: upt_Suc)
  have "seal_loop (e # es) ps ms = seal_loop es (ps @ [ucast ms]) (ms + entry_bytes e)"
    by (simp add: entry_bytes_def)
  also have "\<dots> =
     ((ps @ [ucast ms]) @
        map (\<lambda>i. ucast (ms + entry_bytes e + sum_list (map entry_bytes (take i es)))) [0..<length es],
      ms + entry_bytes e + sum_list (map entry_bytes es))"
    by (rule Cons.IH)
  also have "\<dots> =
     (ps @ map (\<lambda>i. ucast (ms + sum_list (map entry_bytes (take i (e # es))))) [0..<length (e # es)],
      ms + sum_list (map entry_bytes (e # es)))"
    unfolding upt by (simp add: comp_def add.assoc)
  finally show ?case .
qed

text \<open>C3. \<^verbatim>\<open>maybe_add_summary_entry\<close> always counts the partition. Below the threshold it
  appends nothing and leaves the threshold alone; at or above the threshold it appends exactly the
  entry (token, key, index_offset) and advances the threshold by
  \<open>summary_byte_cost * (8 + 2 + key length)\<close> (64-bit arithmetic).\<close>

theorem maybe_add_summary_entry_spec:
  assumes "maybe_add_summary_entry s tok k data_offset index_offset st = (s', st')"
  shows "partition_count st' = partition_count st + 1
       \<and> summary_byte_cost st' = summary_byte_cost st
       \<and> (data_offset < next_data_offset_to_write_summary st \<longrightarrow>
             s' = s
           \<and> next_data_offset_to_write_summary st' = next_data_offset_to_write_summary st)
       \<and> (next_data_offset_to_write_summary st \<le> data_offset \<longrightarrow>
             s' = s\<lparr>entries := entries s @ [\<lparr>token = tok, key = k, position = index_offset\<rparr>]\<rparr>
           \<and> next_data_offset_to_write_summary st' =
               next_data_offset_to_write_summary st
                 + summary_byte_cost st * (8 + 2 + of_nat (length k)))"
  using assms by (auto simp: maybe_add_summary_entry_def Let_def split: if_splits)

theorem maybe_add_summary_entry_spec_witness:
  "maybe_add_summary_entry
     \<lparr>header = \<lparr>min_index_interval = 128, size_hdr = 0, memory_size = 0, sampling_level = 128,
                 size_at_full_sampling = 0\<rparr>,
      positions = [], entries = [], first_key = [], last_key = []\<rparr>
     [7] [1, 2, 3] 100 40
     \<lparr>next_data_offset_to_write_summary = 100, partition_count = 3, summary_byte_cost = 2000\<rparr>
   = (\<lparr>header = \<lparr>min_index_interval = 128, size_hdr = 0, memory_size = 0, sampling_level = 128,
                 size_at_full_sampling = 0\<rparr>,
       positions = [], entries = [\<lparr>token = [7], key = [1, 2, 3], position = 40\<rparr>],
       first_key = [], last_key = []\<rparr>,
      \<lparr>next_data_offset_to_write_summary = 26100, partition_count = 4,
       summary_byte_cost = 2000\<rparr>)
   \<and> (100 :: u64) \<le> 100 \<and> (26100 :: u64) = 100 + 2000 * (8 + 2 + of_nat (length [1 :: byte, 2, 3]))"
proof -
  have h: "maybe_add_summary_entry
     \<lparr>header = \<lparr>min_index_interval = 128, size_hdr = 0, memory_size = 0, sampling_level = 128,
                 size_at_full_sampling = 0\<rparr>,
      positions = [], entries = [], first_key = [], last_key = []\<rparr>
     [7] [1, 2, 3] 100 40
     \<lparr>next_data_offset_to_write_summary = 100, partition_count = 3, summary_byte_cost = 2000\<rparr>
   = (\<lparr>header = \<lparr>min_index_interval = 128, size_hdr = 0, memory_size = 0, sampling_level = 128,
                 size_at_full_sampling = 0\<rparr>,
       positions = [], entries = [\<lparr>token = [7], key = [1, 2, 3], position = 40\<rparr>],
       first_key = [], last_key = []\<rparr>,
      \<lparr>next_data_offset_to_write_summary = 26100, partition_count = 4,
       summary_byte_cost = 2000\<rparr>)"
    by (simp add: maybe_add_summary_entry_def)
  show ?thesis
    using maybe_add_summary_entry_spec [OF h] h by simp
qed

text \<open>C1, as the code has it. \<^verbatim>\<open>seal_summary\<close> appends one position per entry to the
  positions array and clears nothing: for a summary whose positions array is empty before the
  call, as the writer prepares it, the appended positions are the whole array and position \<open>i\<close>
  is the \<open>i\<close>-th of them. The \<open>i\<close>-th appended position is the offset of entry \<open>i\<close> counted
  from the end of the header, that is from the start of an array of \<open>size\<close> positions,
  narrowed to 32 bits: the first is \<open>4 * size\<close>, each next one adds the key length of the entry
  before it plus 8. \<^verbatim>\<open>memory_size\<close> is the 64-bit sum of \<open>4 * size\<close>, the bytes of an array
  of \<open>size\<close> positions, and of the bytes of the entries region.\<close>

theorem seal_summary_positions:
  assumes "seal_summary gsfs s fk lk st = Inr s'"
  shows "\<exists>np. positions s' = positions s @ np
            \<and> length np = length (entries s)
            \<and> (\<forall>i < length (entries s). np ! i = ucast (entry_offset (entries s) i))
            \<and> (0 < length (entries s) \<longrightarrow> np ! 0 = ucast (size_hdr (header s')) * 4)
            \<and> (\<forall>i. Suc i < length (entries s) \<longrightarrow>
                   np ! Suc i = np ! i + ucast (entry_bytes (entries s ! i)))
            \<and> (positions s = [] \<longrightarrow>
                   length (positions s') = length (entries s)
                 \<and> (\<forall>i < length (entries s).
                        positions s' ! i = ucast (entry_offset (entries s) i))
                 \<and> (0 < length (entries s) \<longrightarrow>
                        positions s' ! 0 = ucast (size_hdr (header s')) * 4)
                 \<and> (\<forall>i. Suc i < length (entries s) \<longrightarrow>
                        positions s' ! Suc i
                          = positions s' ! i + ucast (entry_bytes (entries s ! i))))
            \<and> size_hdr (header s') = of_nat (length (entries s))
            \<and> memory_size (header s') =
                  ucast (size_hdr (header s')) * 4 + sum_list (map entry_bytes (entries s))"
proof -
  let ?es = "entries s"
  let ?np = "map (\<lambda>i. ucast (entry_offset ?es i) :: u32) [0..<length ?es]"
  from assms have pos: "positions s' = positions s @ ?np"
    and sz: "size_hdr (header s') = of_nat (length ?es)"
    and ms: "memory_size (header s') = ucast (of_nat (length ?es) :: u32) * 4 + sum_list (map entry_bytes ?es)"
    by (auto simp: seal_summary_def Let_def seal_loop_eq entry_offset_def split: option.splits)
  have step: "?np ! Suc i = ?np ! i + ucast (entry_bytes (?es ! i))" if "Suc i < length ?es" for i
  proof -
    from that have "take (Suc i) ?es = take i ?es @ [?es ! i]"
      by (simp add: take_Suc_conv_app_nth)
    then have "entry_offset ?es (Suc i) = entry_offset ?es i + entry_bytes (?es ! i)"
      by (simp add: entry_offset_def)
    with that show ?thesis
      by (simp add: ucast_add_64_32 del: upt_Suc)
  qed
  have first: "?np ! 0 = ucast (size_hdr (header s')) * 4" if "0 < length ?es"
    using that sz by (simp add: entry_offset_def ucast_times4_64_32 del: upt_Suc)
  have whole: "positions s' = ?np" if "positions s = []"
    using pos that by simp
  have empty: "positions s = [] \<longrightarrow>
                   length (positions s') = length (entries s)
                 \<and> (\<forall>i < length (entries s).
                        positions s' ! i = ucast (entry_offset (entries s) i))
                 \<and> (0 < length (entries s) \<longrightarrow>
                        positions s' ! 0 = ucast (size_hdr (header s')) * 4)
                 \<and> (\<forall>i. Suc i < length (entries s) \<longrightarrow>
                        positions s' ! Suc i
                          = positions s' ! i + ucast (entry_bytes (entries s ! i)))"
  proof
    assume e: "positions s = []"
    show "length (positions s') = length (entries s)
                 \<and> (\<forall>i < length (entries s).
                        positions s' ! i = ucast (entry_offset (entries s) i))
                 \<and> (0 < length (entries s) \<longrightarrow>
                        positions s' ! 0 = ucast (size_hdr (header s')) * 4)
                 \<and> (\<forall>i. Suc i < length (entries s) \<longrightarrow>
                        positions s' ! Suc i
                          = positions s' ! i + ucast (entry_bytes (entries s ! i)))"
      unfolding whole [OF e] using step first by (simp del: upt_Suc)
  qed
  show ?thesis
    using pos sz ms step first empty by (intro exI [of _ ?np]) (simp del: upt_Suc)
qed

theorem seal_summary_positions_witness:
  "seal_summary (\<lambda>p m. p)
     \<lparr>header = \<lparr>min_index_interval = 128, size_hdr = 0, memory_size = 0, sampling_level = 128,
                 size_at_full_sampling = 0\<rparr>,
      positions = [],
      entries = [\<lparr>token = [1], key = [97], position = 0\<rparr>,
                 \<lparr>token = [2], key = [98, 99], position = 20\<rparr>],
      first_key = [], last_key = []\<rparr>
     (Some [97]) (Some [98, 99])
     \<lparr>next_data_offset_to_write_summary = 0, partition_count = 2, summary_byte_cost = 2000\<rparr>
   = Inr \<lparr>header = \<lparr>min_index_interval = 128, size_hdr = 2, memory_size = 27,
                      sampling_level = 128, size_at_full_sampling = 2\<rparr>,
           positions = [8, 17],
           entries = [\<lparr>token = [1], key = [97], position = 0\<rparr>,
                      \<lparr>token = [2], key = [98, 99], position = 20\<rparr>],
           first_key = [97], last_key = [98, 99]\<rparr>
   \<and> (\<exists>np. [8, 17 :: u32] = [] @ np \<and> length np = 2 \<and> np ! 0 = 2 * 4 \<and> np ! 1 = np ! 0 + 9)
   \<and> seal_summary (\<lambda>p m. p)
     \<lparr>header = \<lparr>min_index_interval = 128, size_hdr = 0, memory_size = 0, sampling_level = 128,
                 size_at_full_sampling = 0\<rparr>,
      positions = [99, 7],
      entries = [\<lparr>token = [1], key = [97], position = 0\<rparr>,
                 \<lparr>token = [2], key = [98, 99], position = 20\<rparr>],
      first_key = [], last_key = []\<rparr>
     (Some [97]) (Some [98, 99])
     \<lparr>next_data_offset_to_write_summary = 0, partition_count = 2, summary_byte_cost = 2000\<rparr>
   = Inr \<lparr>header = \<lparr>min_index_interval = 128, size_hdr = 2, memory_size = 27,
                      sampling_level = 128, size_at_full_sampling = 2\<rparr>,
           positions = [99, 7, 8, 17],
           entries = [\<lparr>token = [1], key = [97], position = 0\<rparr>,
                      \<lparr>token = [2], key = [98, 99], position = 20\<rparr>],
           first_key = [97], last_key = [98, 99]\<rparr>"
proof -
  have h: "seal_summary (\<lambda>p m. p)
     \<lparr>header = \<lparr>min_index_interval = 128, size_hdr = 0, memory_size = 0, sampling_level = 128,
                 size_at_full_sampling = 0\<rparr>,
      positions = [],
      entries = [\<lparr>token = [1], key = [97], position = 0\<rparr>,
                 \<lparr>token = [2], key = [98, 99], position = 20\<rparr>],
      first_key = [], last_key = []\<rparr>
     (Some [97]) (Some [98, 99])
     \<lparr>next_data_offset_to_write_summary = 0, partition_count = 2, summary_byte_cost = 2000\<rparr>
   = Inr \<lparr>header = \<lparr>min_index_interval = 128, size_hdr = 2, memory_size = 27,
                      sampling_level = 128, size_at_full_sampling = 2\<rparr>,
           positions = [8, 17],
           entries = [\<lparr>token = [1], key = [97], position = 0\<rparr>,
                      \<lparr>token = [2], key = [98, 99], position = 20\<rparr>],
           first_key = [97], last_key = [98, 99]\<rparr>"
    by (simp add: seal_summary_def)
  have g: "seal_summary (\<lambda>p m. p)
     \<lparr>header = \<lparr>min_index_interval = 128, size_hdr = 0, memory_size = 0, sampling_level = 128,
                 size_at_full_sampling = 0\<rparr>,
      positions = [99, 7],
      entries = [\<lparr>token = [1], key = [97], position = 0\<rparr>,
                 \<lparr>token = [2], key = [98, 99], position = 20\<rparr>],
      first_key = [], last_key = []\<rparr>
     (Some [97]) (Some [98, 99])
     \<lparr>next_data_offset_to_write_summary = 0, partition_count = 2, summary_byte_cost = 2000\<rparr>
   = Inr \<lparr>header = \<lparr>min_index_interval = 128, size_hdr = 2, memory_size = 27,
                      sampling_level = 128, size_at_full_sampling = 2\<rparr>,
           positions = [99, 7, 8, 17],
           entries = [\<lparr>token = [1], key = [97], position = 0\<rparr>,
                      \<lparr>token = [2], key = [98, 99], position = 20\<rparr>],
           first_key = [97], last_key = [98, 99]\<rparr>"
    by (simp add: seal_summary_def)
  from seal_summary_positions [OF h] obtain np :: "u32 list" where
    "[8, 17] = np" "length np = 2" "np ! 0 = 2 * 4"
    "\<forall>i. Suc i < 2 \<longrightarrow> np ! Suc i = np ! i + ucast (entry_bytes ([\<lparr>token = [1], key = [97], position = 0\<rparr>,
                 \<lparr>token = [2 :: byte], key = [98, 99 :: byte], position = 20 :: u64\<rparr>] ! i))"
    by auto
  then have "\<exists>np. [8, 17 :: u32] = [] @ np \<and> length np = 2 \<and> np ! 0 = 2 * 4 \<and> np ! 1 = np ! 0 + 9"
    by (intro exI [of _ np]) (auto simp: entry_bytes_def)
  with h g show ?thesis
    by (intro conjI)
qed

text \<open>C1, as the claim words it, fails: the first position is not 0. With two entries whose
  keys are 1 and 2 bytes long the positions are 8 and 17 (offsets from the start of the positions
  array, which takes 2 * 4 bytes), not 0 and 9.\<close>

theorem seal_summary_positions_counterexample:
  "seal_summary (\<lambda>p m. p)
     \<lparr>header = \<lparr>min_index_interval = 128, size_hdr = 0, memory_size = 0, sampling_level = 128,
                 size_at_full_sampling = 0\<rparr>,
      positions = [],
      entries = [\<lparr>token = [1], key = [97], position = 0\<rparr>,
                 \<lparr>token = [2], key = [98, 99], position = 20\<rparr>],
      first_key = [], last_key = []\<rparr>
     (Some [97]) (Some [98, 99])
     \<lparr>next_data_offset_to_write_summary = 0, partition_count = 2, summary_byte_cost = 2000\<rparr>
   = Inr \<lparr>header = \<lparr>min_index_interval = 128, size_hdr = 2, memory_size = 27,
                      sampling_level = 128, size_at_full_sampling = 2\<rparr>,
           positions = [8, 17],
           entries = [\<lparr>token = [1], key = [97], position = 0\<rparr>,
                      \<lparr>token = [2], key = [98, 99], position = 20\<rparr>],
           first_key = [97], last_key = [98, 99]\<rparr>
   \<and> [8, 17 :: u32] ! 0 \<noteq> 0"
  by (simp add: seal_summary_def)

subsection \<open>Reading back what was written\<close>

lemma length_le_bytes: "length (le_bytes n w) = n"
  by (induction n arbitrary: w) auto

lemma le_word_le_bytes: "(le_word (le_bytes n w) :: 'a::len word) = take_bit (8 * n) (w :: 'a word)"
proof (induction n arbitrary: w)
  case 0
  then show ?case by simp
next
  case (Suc n)
  show ?case
    apply (simp add: Suc)
    apply (rule bit_word_eqI)
    apply (auto simp: bit_simps)
    done
qed

lemma le_word_le_bytes_32: "(le_word (le_bytes 4 w) :: u32) = w"
  by (simp add: le_word_le_bytes take_bit_word_eq_self)

lemma le_word_le_bytes_64: "(le_word (le_bytes 8 w) :: u64) = w"
  by (simp add: le_word_le_bytes take_bit_word_eq_self)

lemma be_word_be_bytes_32: "(be_word (be_bytes 4 w) :: u32) = w"
  by (simp add: be_word_def be_bytes_def le_word_le_bytes take_bit_word_eq_self)

lemma be_word_be_bytes_64: "(be_word (be_bytes 8 w) :: u64) = w"
  by (simp add: be_word_def be_bytes_def le_word_le_bytes take_bit_word_eq_self)

lemma length_be_bytes: "length (be_bytes n w) = n"
  by (simp add: be_bytes_def length_le_bytes)

lemma ucast_of_nat_32_64: "n < 2 ^ 32 \<Longrightarrow> (ucast (of_nat n :: u32) :: u64) = of_nat n"
  by (simp add: unsigned_of_nat take_bit_nat_eq_self)

lemma ucast_of_nat_64_32: "(ucast (of_nat n :: u64) :: u32) = of_nat n"
  by (simp add: unsigned_of_nat word_of_nat_eq_iff)

lemma unat_of_nat_32: "n < 2 ^ 32 \<Longrightarrow> unat (of_nat n :: u32) = n"
  by (simp add: unat_of_nat)

lemma sum_entry_bytes: "sum_list (map entry_bytes es) = of_nat (sum_list (map (\<lambda>e. length (key e) + 8) es))"
  by (induction es) (simp_all add: entry_bytes_def)


lemma read_exactly_rem:
  assumes "drop (rd_pos rd) (rd_data rd) = x @ post"
  shows "read_exactly (length x) rd = (x, rd\<lparr>rd_pos := rd_pos rd + length x\<rparr>)"
  using assms by (simp add: read_exactly_def)

lemma drop_rem:
  assumes "drop p d = x @ post"
  shows "drop (p + length x) d = post"
proof -
  have "drop (length x) (drop p d) = post"
    using assms by simp
  then show ?thesis
    by (simp add: add.commute)
qed

lemma parse_u32_rem:
  assumes "drop (rd_pos rd) (rd_data rd) = be_bytes 4 w @ post"
  shows "parse_u32 rd = Inr (w, rd\<lparr>rd_pos := rd_pos rd + 4\<rparr>)"
  using read_exactly_rem [OF assms]
  by (simp add: parse_u32_def parse_int_def check_buf_size_def length_be_bytes be_word_be_bytes_32)

lemma parse_u64_rem:
  assumes "drop (rd_pos rd) (rd_data rd) = be_bytes 8 w @ post"
  shows "parse_u64 rd = Inr (w, rd\<lparr>rd_pos := rd_pos rd + 8\<rparr>)"
  using read_exactly_rem [OF assms]
  by (simp add: parse_u64_def parse_int_def check_buf_size_def length_be_bytes be_word_be_bytes_64)

lemma write_disk_string32_ok:
  "length v < 2 ^ 32 \<Longrightarrow> write_disk_string32 v = Inr (be_bytes 4 (of_nat (length v) :: u32) @ v)"
  by (simp add: write_disk_string32_def unat_of_nat_32)

lemma parse_disk_string32_rem:
  assumes "drop (rd_pos rd) (rd_data rd) = be_bytes 4 (of_nat (length v) :: u32) @ v @ post"
    and "length v < 2 ^ 32"
  shows "parse_disk_string32 rd = Inr (v, rd\<lparr>rd_pos := rd_pos rd + 4 + length v\<rparr>)"
proof -
  let ?rd1 = "rd\<lparr>rd_pos := rd_pos rd + 4\<rparr>"
  have 1: "parse_u32 rd = Inr (of_nat (length v), ?rd1)"
    by (rule parse_u32_rem [OF assms(1)])
  have "drop (rd_pos rd + length (be_bytes 4 (of_nat (length v) :: u32))) (rd_data rd) = v @ post"
    by (rule drop_rem [OF assms(1)])
  then have "drop (rd_pos ?rd1) (rd_data ?rd1) = v @ post"
    by (simp add: length_be_bytes)
  from read_exactly_rem [OF this]
  have 2: "read_exactly (length v) ?rd1 = (v, rd\<lparr>rd_pos := rd_pos rd + 4 + length v\<rparr>)"
    by simp
  show ?thesis
    using assms(2) by (simp add: parse_disk_string32_def 1 2 unat_of_nat_32 check_buf_size_def)
qed

lemma read_positions_concat:
  "read_positions (length ps) (concat (map (le_bytes 4) ps) @ rest) = ps"
proof (induction ps)
  case Nil
  then show ?case by simp
next
  case (Cons p ps)
  then show ?case
    by (simp add: length_le_bytes le_word_le_bytes_32)
qed

lemma parse_summary_entries_rem:
  assumes "drop (rd_pos rd) (rd_data rd) = concat (map write_summary_entry es) @ post"
    and "\<And>i. i < length es \<Longrightarrow> unat (ps ! (idx + i + 1) - ps ! (idx + i)) = length (key (es ! i)) + 8"
    and "list_all (\<lambda>e. token e = get_token (key e)) es"
  shows "parse_summary_entries get_token ps idx (length es) rd acc =
           Inr (acc @ es, rd\<lparr>rd_pos := rd_pos rd + length (concat (map write_summary_entry es))\<rparr>)"
  using assms
proof (induction es arbitrary: idx rd acc)
  case Nil
  then show ?case by simp
next
  case (Cons e es)
  let ?x = "write_summary_entry e"
  let ?rd1 = "rd\<lparr>rd_pos := rd_pos rd + length ?x\<rparr>"
  have sz: "unat (ps ! Suc idx - ps ! idx) = length (key e) + 8"
    using Cons.prems(2) [of 0] by simp
  have len: "length ?x = length (key e) + 8"
    by (simp add: write_summary_entry_def length_le_bytes)
  have rem: "drop (rd_pos rd) (rd_data rd) = ?x @ concat (map write_summary_entry es) @ post"
    using Cons.prems(1) by simp
  have rd: "read_exactly (length (key e) + 8) rd = (?x, ?rd1)"
    using read_exactly_rem [OF rem] len by simp
  have ge8: "\<not> ps ! Suc idx - ps ! idx < 8"
  proof -
    have "unat (8 :: u32) \<le> unat (ps ! Suc idx - ps ! idx)"
      using sz by simp
    then show ?thesis
      by (simp only: word_less_nat_alt not_less)
  qed
  have ks: "unat (ps ! Suc idx - ps ! idx - 8) = length (key e)"
  proof -
    have "unat (ps ! Suc idx - ps ! idx - 8) = unat (ps ! Suc idx - ps ! idx) - unat (8 :: u32)"
      using ge8 by (intro unat_sub) (simp add: not_less)
    then show ?thesis using sz by simp
  qed
  have rem1: "drop (rd_pos ?rd1) (rd_data ?rd1) = concat (map write_summary_entry es) @ post"
    using drop_rem [OF rem] by simp
  have pos1: "\<And>i. i < length es \<Longrightarrow>
      unat (ps ! (idx + 1 + i + 1) - ps ! (idx + 1 + i)) = length (key (es ! i)) + 8"
    using Cons.prems(2) [of "Suc i" for i] by simp
  have tok: "list_all (\<lambda>e. token e = get_token (key e)) es" and tok_e: "token e = get_token (key e)"
    using Cons.prems(3) by simp_all
  have IH: "parse_summary_entries get_token ps (Suc idx) (length es) ?rd1
              (acc @ [e]) =
           Inr ((acc @ [e]) @ es, ?rd1\<lparr>rd_pos := rd_pos ?rd1 + length (concat (map write_summary_entry es))\<rparr>)"
    using Cons.IH [OF rem1 pos1 tok] by simp
  have e_eq: "\<lparr>token = get_token (key e), key = key e, position = position e\<rparr> = e"
    using tok_e by simp
  have step: "parse_summary_entries get_token ps idx (length (e # es)) rd acc =
          parse_summary_entries get_token ps (Suc idx) (length es) ?rd1
            (acc @ [\<lparr>token = get_token (key e), key = key e, position = position e\<rparr>])"
    using ge8
    by (simp add: sz rd check_buf_size_def len ks Let_def write_summary_entry_def
        le_word_le_bytes_64 length_le_bytes)
  show ?case
    unfolding step e_eq using IH by (simp add: len add.assoc)
qed


lemma noff_le: "noff es i \<le> summary_bytes es"
proof -
  have "sum_list (map (\<lambda>e. length (key e) + 8) (take i es))
      \<le> sum_list (map (\<lambda>e. length (key e) + 8) (take i es @ drop i es))"
    unfolding map_append sum_list_append by simp
  then show ?thesis
    by (simp add: noff_def summary_bytes_def)
qed

lemma noff_Suc: "i < length es \<Longrightarrow> noff es (Suc i) = noff es i + (length (key (es ! i)) + 8)"
  by (simp add: noff_def take_Suc_conv_app_nth)

lemma noff_all: "noff es (length es) = summary_bytes es"
  by (simp add: noff_def summary_bytes_def)

lemma well_formed_closed_form:
  assumes "well_formed_summary get_token s"
  shows "positions s = map (\<lambda>i. of_nat (noff (entries s) i)) [0..<length (entries s)]"
    and "memory_size (header s) = of_nat (summary_bytes (entries s))"
    and "size_hdr (header s) = of_nat (length (entries s))"
    and "length (entries s) < 2 ^ 32"
proof -
  let ?es = "entries s"
  from assms have sz: "size_hdr (header s) = of_nat (length ?es)"
    and sl: "seal_loop ?es [] (ucast (size_hdr (header s)) * 4) = (positions s, memory_size (header s))"
    and bound: "summary_bytes ?es < 2 ^ 32"
    unfolding well_formed_summary_def by blast+
  from bound show n: "length ?es < 2 ^ 32"
    by (simp add: summary_bytes_def)
  have base: "(ucast (size_hdr (header s)) :: u64) * 4 = of_nat (4 * length ?es)"
    using n by (simp add: sz ucast_of_nat_32_64)
  have off: "ucast (size_hdr (header s)) * 4 + sum_list (map entry_bytes (take i ?es))
           = (of_nat (noff ?es i) :: u64)" for i
    by (simp only: base sum_entry_bytes noff_def of_nat_add)
  from sl show "positions s = map (\<lambda>i. of_nat (noff ?es i)) [0..<length ?es]"
    by (simp only: seal_loop_eq off ucast_of_nat_64_32 prod.inject append_Nil)
  from sl have "memory_size (header s) = ucast (size_hdr (header s)) * 4 + sum_list (map entry_bytes (take (length ?es) ?es))"
    by (simp add: seal_loop_eq)
  then show "memory_size (header s) = of_nat (summary_bytes ?es)"
    by (simp only: off noff_all)
  show "size_hdr (header s) = of_nat (length ?es)" by (rule sz)
qed


lemma boundary_positions:
  assumes "well_formed_summary get_token s"
  shows "positions s @ [ucast (memory_size (header s))]
       = map (\<lambda>i. of_nat (noff (entries s) i)) [0..<Suc (length (entries s))]"
  using well_formed_closed_form(1,2) [OF assms]
  by (simp add: ucast_of_nat_64_32 noff_all)

lemma entry_size_from_positions:
  assumes "summary_bytes es < 2 ^ 32" and "i < length es"
    and "ps = map (\<lambda>i. of_nat (noff es i) :: u32) [0..<Suc (length es)]"
  shows "unat (ps ! (i + 1) - ps ! i) = length (key (es ! i)) + 8"
proof -
  have a: "ps ! i = of_nat (noff es i)" and b: "ps ! (i + 1) = of_nat (noff es (Suc i))"
    using assms(2,3) by (simp_all add: nth_append del: upt_Suc)
  have "noff es (Suc i) \<le> summary_bytes es"
    by (rule noff_le)
  then have small: "length (key (es ! i)) + 8 < 2 ^ 32"
    using assms(1,2) by (simp add: noff_Suc)
  have "ps ! (i + 1) - ps ! i = (of_nat (length (key (es ! i)) + 8) :: u32)"
    unfolding a b using assms(2) by (simp add: noff_Suc)
  then show ?thesis
    using small by (simp only: unat_of_nat_32)
qed


lemma unat_of_nat_64: "n < 2 ^ 64 \<Longrightarrow> unat (of_nat n :: u64) = n"
  by (simp add: unat_of_nat)

lemma length_concat_le_bytes: "length (concat (map (le_bytes 4) ps)) = 4 * length ps"
  by (induction ps) (simp_all add: length_le_bytes)

lemma length_concat_entries:
  "length (concat (map write_summary_entry es)) = sum_list (map (\<lambda>e. length (key e) + 8) es)"
  by (induction es) (simp_all add: write_summary_entry_def length_le_bytes)

lemma load_positions_written:
  assumes "unat (size_hdr h) = length ps"
  shows "load_positions h (concat (map (le_bytes 4) ps)) = ps @ [ucast (memory_size h)]"
  using read_positions_concat [of ps "[]"] assms by (simp add: load_positions_def)


lemma length_read_positions: "length (read_positions n b) = n"
  by (induction n arbitrary: b) auto

lemma seal_summary_well_formed:
  assumes "seal_summary gsfs s (Some fk) lk st = Inr s'"
    and "positions s = []"
    and "summary_bytes (entries s) < 2 ^ 32"
    and "length fk < 2 ^ 32"
    and "case lk of None \<Rightarrow> True | Some k \<Rightarrow> length k < 2 ^ 32"
    and "list_all (\<lambda>e. token e = get_token (key e)) (entries s)"
  shows "well_formed_summary get_token s'"
  using assms
  by (auto simp: seal_summary_def well_formed_summary_def Let_def split: prod.splits option.splits)

text \<open>C2. Writing a well-formed summary and parsing the bytes gives the summary back. While
  the entries are read, the positions held by the loader are those of the file followed by the
  boundary \<^verbatim>\<open>memory_size\<close>; the boundary is dropped at the end, so the loaded positions
  are as many as the header's size says.\<close>

theorem summary_round_trip:
  assumes wf: "well_formed_summary get_token s"
  shows "\<exists>bs. write_summary s = Inr bs
            \<and> parse_summary get_token \<lparr>rd_data = bs, rd_pos = 0\<rparr>
                = Inr (s, \<lparr>rd_data = bs,
                           rd_pos = sizeof_summary_header + summary_bytes (entries s)\<rparr>)
            \<and> load_positions (header s) (concat (map (le_bytes 4) (positions s)))
                = positions s @ [ucast (memory_size (header s))]
            \<and> length (positions s) = unat (size_hdr (header s))"
proof -
  let ?es = "entries s" and ?h = "header s"
  let ?n = "length ?es"
  let ?sb = "summary_bytes ?es"
  let ?h1 = "be_bytes 4 (min_index_interval ?h)" and ?h2 = "be_bytes 4 (size_hdr ?h)"
  let ?h3 = "be_bytes 8 (memory_size ?h)" and ?h4 = "be_bytes 4 (sampling_level ?h)"
  let ?h5 = "be_bytes 4 (size_at_full_sampling ?h)"
  let ?P = "concat (map (le_bytes 4) (positions s))"
  let ?E = "concat (map write_summary_entry ?es)"
  let ?F = "be_bytes 4 (of_nat (length (first_key s)) :: u32) @ first_key s"
  let ?L = "be_bytes 4 (of_nat (length (last_key s)) :: u32) @ last_key s"
  let ?bs = "?h1 @ ?h2 @ ?h3 @ ?h4 @ ?h5 @ ?P @ ?E @ ?F @ ?L"
  let ?rd = "\<lambda>k. \<lparr>rd_data = ?bs, rd_pos = k\<rparr>"
  from wf have fk: "length (first_key s) < 2 ^ 32" and lk: "length (last_key s) < 2 ^ 32"
    and sb: "?sb < 2 ^ 32" and tok: "list_all (\<lambda>e. token e = get_token (key e)) ?es"
    unfolding well_formed_summary_def by blast+
  note cf = well_formed_closed_form [OF wf]
  have n: "?n < 2 ^ 32" by (rule cf(4))
  have lenps: "length (positions s) = ?n"
    by (simp add: cf(1))
  have usz: "unat (size_hdr ?h) = ?n"
    using n by (simp only: cf(3) unat_of_nat_32)
  have lenP: "length ?P = 4 * ?n"
    by (simp only: length_concat_le_bytes lenps)
  have lenE: "4 * ?n + length ?E = ?sb"
    by (simp only: length_concat_entries summary_bytes_def)
  have w: "write_summary s = Inr ?bs"
    by (simp add: write_summary_def Let_def write_disk_string32_ok [OF fk]
          write_disk_string32_ok [OF lk])
  have r0: "drop (rd_pos (?rd 0)) (rd_data (?rd 0)) = ?h1 @ ?h2 @ ?h3 @ ?h4 @ ?h5 @ ?P @ ?E @ ?F @ ?L"
    by simp
  have p1: "parse_u32 (?rd 0) = Inr (min_index_interval ?h, ?rd 4)"
    using parse_u32_rem [OF r0] by simp
  have r1: "drop (rd_pos (?rd 4)) (rd_data (?rd 4)) = ?h2 @ ?h3 @ ?h4 @ ?h5 @ ?P @ ?E @ ?F @ ?L"
    by (simp add: length_be_bytes)
  have p2: "parse_u32 (?rd 4) = Inr (size_hdr ?h, ?rd 8)"
    using parse_u32_rem [OF r1] by simp
  have r2: "drop (rd_pos (?rd 8)) (rd_data (?rd 8)) = ?h3 @ ?h4 @ ?h5 @ ?P @ ?E @ ?F @ ?L"
    by (simp add: length_be_bytes)
  have p3: "parse_u64 (?rd 8) = Inr (memory_size ?h, ?rd 16)"
    using parse_u64_rem [OF r2] by simp
  have r3: "drop (rd_pos (?rd 16)) (rd_data (?rd 16)) = ?h4 @ ?h5 @ ?P @ ?E @ ?F @ ?L"
    by (simp add: length_be_bytes)
  have p4: "parse_u32 (?rd 16) = Inr (sampling_level ?h, ?rd 20)"
    using parse_u32_rem [OF r3] by simp
  have r4: "drop (rd_pos (?rd 20)) (rd_data (?rd 20)) = ?h5 @ ?P @ ?E @ ?F @ ?L"
    by (simp add: length_be_bytes)
  have p5: "parse_u32 (?rd 20) = Inr (size_at_full_sampling ?h, ?rd 24)"
    using parse_u32_rem [OF r4] by simp
  have r5: "drop (rd_pos (?rd 24)) (rd_data (?rd 24)) = ?P @ ?E @ ?F @ ?L"
    by (simp add: length_be_bytes)
  have p6: "read_exactly (?n * 4) (?rd 24) = (?P, ?rd (24 + 4 * ?n))"
    using read_exactly_rem [OF r5] lenP by (simp add: mult.commute)
  have hd_eq: "\<lparr>min_index_interval = min_index_interval ?h, size_hdr = size_hdr ?h,
                memory_size = memory_size ?h, sampling_level = sampling_level ?h,
                size_at_full_sampling = size_at_full_sampling ?h\<rparr> = ?h"
    by simp
  have lp: "load_positions ?h ?P = positions s @ [ucast (memory_size ?h)]"
    by (rule load_positions_written) (simp only: usz lenps)
  let ?ps = "positions s @ [ucast (memory_size ?h)]"
  have ps: "?ps = map (\<lambda>i. of_nat (noff ?es i)) [0..<Suc ?n]"
    by (rule boundary_positions [OF wf])
  have sk1: "unat (of_nat sizeof_summary_header + memory_size ?h) = 24 + ?sb"
  proof -
    have "of_nat sizeof_summary_header + memory_size ?h = (of_nat (24 + ?sb) :: u64)"
      by (simp add: cf(2) sizeof_summary_header_def)
    moreover have "24 + ?sb < (2 :: nat) ^ 64"
      using sb by simp
    ultimately show ?thesis
      by (simp only: unat_of_nat_64)
  qed
  have r7: "drop (rd_pos (?rd (24 + ?sb))) (rd_data (?rd (24 + ?sb))) = ?F @ ?L"
    using lenP lenE by (simp add: length_be_bytes)
  have r7': "drop (rd_pos (?rd (24 + ?sb))) (rd_data (?rd (24 + ?sb)))
      = be_bytes 4 (of_nat (length (first_key s)) :: u32) @ first_key s @ ?L"
    using r7 by simp
  have p7: "parse_disk_string32 (?rd (24 + ?sb)) = Inr (first_key s, ?rd (24 + ?sb + 4 + length (first_key s)))"
    using parse_disk_string32_rem [OF r7' fk] by simp
  have r8: "drop (rd_pos (?rd (24 + ?sb + 4 + length (first_key s))))
                 (rd_data (?rd (24 + ?sb + 4 + length (first_key s))))
      = be_bytes 4 (of_nat (length (last_key s)) :: u32) @ last_key s @ []"
    using lenP lenE by (simp add: length_be_bytes)
  have p8: "parse_disk_string32 (?rd (24 + ?sb + 4 + length (first_key s)))
      = Inr (last_key s, ?rd (24 + ?sb + 4 + length (first_key s) + 4 + length (last_key s)))"
    using parse_disk_string32_rem [OF r8 lk] by simp
  have ps0: "unat (?ps ! 0) = 4 * ?n"
  proof -
    have "?ps ! 0 = of_nat (noff ?es 0)"
      unfolding ps by (simp del: upt_Suc add: upt_conv_Cons)
    moreover have "noff ?es 0 = 4 * ?n"
      by (simp add: noff_def)
    moreover have "4 * ?n < (2 :: nat) ^ 32"
      using sb by (simp add: summary_bytes_def)
    ultimately show ?thesis
      by (simp only: unat_of_nat_32)
  qed
  have r9: "drop (rd_pos (?rd (4 * ?n + 24))) (rd_data (?rd (4 * ?n + 24))) = ?E @ ?F @ ?L"
    using lenP by (simp add: length_be_bytes)
  have p9: "parse_summary_entries get_token ?ps 0 ?n (?rd (4 * ?n + 24)) []
      = Inr (?es, ?rd (24 + ?sb))"
  proof -
    have "parse_summary_entries get_token ?ps 0 (length ?es) (?rd (4 * ?n + 24)) []
        = Inr ([] @ ?es, (?rd (4 * ?n + 24))\<lparr>rd_pos := rd_pos (?rd (4 * ?n + 24)) + length ?E\<rparr>)"
    proof (rule parse_summary_entries_rem [OF r9 _ tok])
      fix i assume "i < length ?es"
      then show "unat (?ps ! (0 + i + 1) - ?ps ! (0 + i)) = length (key (?es ! i)) + 8"
        using entry_size_from_positions [OF sb _ ps, of i] by simp
    qed
    then show ?thesis
      using lenE by (simp add: add.commute add.left_commute)
  qed
  have bl: "butlast ?ps = positions s"
    by simp
  have s_eq: "\<lparr>header = ?h, positions = positions s, entries = ?es,
               first_key = first_key s, last_key = last_key s\<rparr> = s"
    by simp
  have cb: "check_buf_size ?P (?n * 4) = Inr ()"
    by (simp add: check_buf_size_def lenP)
  have sk: "seek (unat (of_nat sizeof_summary_header + memory_size ?h)) (?rd (24 + 4 * ?n))
      = ?rd (24 + ?sb)"
    by (simp add: seek_def sk1)
  have sk2: "seek (unat (?ps ! 0) + sizeof_summary_header)
               (?rd (24 + ?sb + 4 + length (first_key s) + 4 + length (last_key s)))
      = ?rd (4 * ?n + 24)"
    by (simp add: seek_def ps0 sizeof_summary_header_def)
  have p: "parse_summary get_token (?rd 0) = Inr (s, ?rd (24 + ?sb))"
    unfolding parse_summary_def
    by (simp only: p1 p2 p3 p4 p5 sum.case prod.case Let_def usz p6 cb hd_eq lp sk p7 p8 sk2
          p9 bl s_eq)
  show ?thesis
    using w p lp lenps usz by (intro exI [of _ ?bs]) (simp add: sizeof_summary_header_def)
qed

theorem summary_round_trip_witness:
  "well_formed_summary (\<lambda>k. k)
     \<lparr>header = \<lparr>min_index_interval = 128, size_hdr = 2, memory_size = 27,
                 sampling_level = 128, size_at_full_sampling = 2\<rparr>,
      positions = [8, 17],
      entries = [\<lparr>token = [97], key = [97], position = 0\<rparr>,
                 \<lparr>token = [98, 99], key = [98, 99], position = 20\<rparr>],
      first_key = [97], last_key = [98, 99]\<rparr>
   \<and> (\<exists>bs. write_summary
         \<lparr>header = \<lparr>min_index_interval = 128, size_hdr = 2, memory_size = 27,
                     sampling_level = 128, size_at_full_sampling = 2\<rparr>,
          positions = [8, 17],
          entries = [\<lparr>token = [97], key = [97], position = 0\<rparr>,
                     \<lparr>token = [98, 99], key = [98, 99], position = 20\<rparr>],
          first_key = [97], last_key = [98, 99]\<rparr> = Inr bs
       \<and> parse_summary (\<lambda>k. k) \<lparr>rd_data = bs, rd_pos = 0\<rparr>
           = Inr (\<lparr>header = \<lparr>min_index_interval = 128, size_hdr = 2, memory_size = 27,
                               sampling_level = 128, size_at_full_sampling = 2\<rparr>,
                    positions = [8, 17],
                    entries = [\<lparr>token = [97], key = [97], position = 0\<rparr>,
                               \<lparr>token = [98, 99], key = [98, 99], position = 20\<rparr>],
                    first_key = [97], last_key = [98, 99]\<rparr>,
                  \<lparr>rd_data = bs, rd_pos = 51\<rparr>))"
proof -
  have wf: "well_formed_summary (\<lambda>k. k)
     \<lparr>header = \<lparr>min_index_interval = 128, size_hdr = 2, memory_size = 27,
                 sampling_level = 128, size_at_full_sampling = 2\<rparr>,
      positions = [8, 17],
      entries = [\<lparr>token = [97], key = [97], position = 0\<rparr>,
                 \<lparr>token = [98, 99], key = [98, 99], position = 20\<rparr>],
      first_key = [97], last_key = [98, 99]\<rparr>"
    by (simp add: well_formed_summary_def summary_bytes_def)
  from summary_round_trip [OF wf] wf show ?thesis
    by (auto simp: sizeof_summary_header_def summary_bytes_def)
qed

section \<open>Properties of the table of contents\<close>

text \<open>C7. When neither component is recorded before, \<^verbatim>\<open>generate_toc\<close> records exactly one of
  CRC and CompressionInfo: CompressionInfo when a compressor is given, CRC when none is.\<close>

theorem generate_toc_crc_xor_compression_info:
  assumes "\<not> has_component recognized CRC" and "\<not> has_component recognized CompressionInfo"
  shows "(has_component (generate_toc c filter_fp_chance recognized) CompressionInfo \<longleftrightarrow> c \<noteq> None)
       \<and> (has_component (generate_toc c filter_fp_chance recognized) CRC \<longleftrightarrow> c = None)
       \<and> (has_component (generate_toc c filter_fp_chance recognized) CRC
            \<noteq> has_component (generate_toc c filter_fp_chance recognized) CompressionInfo)"
  using assms by (auto simp: generate_toc_def has_component_def Let_def)

theorem generate_toc_crc_xor_compression_info_witness:
  "\<not> has_component {} CRC \<and> \<not> has_component {} CompressionInfo
   \<and> has_component (generate_toc (Some ''LZ4Compressor'') 0.01 {}) CompressionInfo
   \<and> \<not> has_component (generate_toc (Some ''LZ4Compressor'') 0.01 {}) CRC
   \<and> has_component (generate_toc (None :: string option) 0.01 {}) CRC
   \<and> \<not> has_component (generate_toc (None :: string option) 0.01 {}) CompressionInfo"
proof -
  have a: "\<not> has_component {} CRC" and b: "\<not> has_component {} CompressionInfo"
    by (simp_all add: has_component_def)
  show ?thesis
    using generate_toc_crc_xor_compression_info [OF a b, of "Some ''LZ4Compressor''" "0.01"]
      generate_toc_crc_xor_compression_info [OF a b, of "None :: string option" "0.01"] a b
    by simp
qed

section \<open>Properties of the sampling\<close>

lemma sample_partitions_summary:
  "fst (sample_partitions s st fk lk ps) =
     s\<lparr>entries := entries s @ sampled (next_data_offset_to_write_summary st) (summary_byte_cost st) ps\<rparr>"
  by (induction ps arbitrary: s st fk lk)
     (auto simp: maybe_add_summary_entry_def Let_def summary_entry_of_def)

lemma sample_partitions_keys:
  "snd (snd (sample_partitions s st fk lk ps)) =
     (if ps = [] then (fk, lk)
      else (if fk = None then Some (ie_key (hd ps)) else fk, Some (ie_key (last ps))))"
  by (induction ps arbitrary: s st fk lk)
     (auto simp: maybe_add_summary_entry_def Let_def)

text \<open>C8, as the code has it. For a stream of at least one partition written with a sampling
  state whose threshold starts at 0, the sealed summary holds the entry of the first partition,
  and its first and last key are the keys of the first and the last partition. The entries are
  those of the partitions whose data-file offset has reached the threshold, and every entry moves
  the threshold on by \<open>summary_byte_cost * (8 + 2 + key length)\<close>: the sampling goes by bytes of
  data, and the last partition has an entry only if it crosses the threshold.\<close>

theorem seal_sampled_spec:
  assumes "seal_sampled gsfs s st (p # ps) = Inr s'"
    and "next_data_offset_to_write_summary st = 0"
  shows "entries s' = entries s @ sampled 0 (summary_byte_cost st) (p # ps)
       \<and> entries s' ! length (entries s) = summary_entry_of p
       \<and> first_key s' = ie_key p
       \<and> last_key s' = ie_key (last (p # ps))"
proof -
  obtain s1 st1 fk lk where sp: "sample_partitions s st None None (p # ps) = (s1, st1, fk, lk)"
    by (cases "sample_partitions s st None None (p # ps)") auto
  have s1: "s1 = s\<lparr>entries := entries s @ sampled 0 (summary_byte_cost st) (p # ps)\<rparr>"
    using sample_partitions_summary [of s st None None "p # ps"] assms(2) sp by simp
  have k: "fk = Some (ie_key p)" "lk = Some (ie_key (last (p # ps)))"
    using sample_partitions_keys [of s st None None "p # ps"] sp by simp_all
  from assms(1) have seal:
    "seal_summary gsfs s1 (Some (ie_key p)) (Some (ie_key (last (p # ps)))) st1 = Inr s'"
    by (simp add: seal_sampled_def sp k del: sample_partitions.simps)
  then have e: "entries s' = entries s @ sampled 0 (summary_byte_cost st) (p # ps)"
    by (auto simp: seal_summary_def Let_def s1 split: prod.splits)
  have f: "entries s' ! length (entries s) = summary_entry_of p"
    unfolding e by simp
  from seal have "first_key s' = ie_key p" "last_key s' = ie_key (last (p # ps))"
    by (auto simp: seal_summary_def Let_def split: prod.splits)
  with e f show ?thesis by simp
qed

theorem seal_sampled_spec_witness:
  "seal_sampled (\<lambda>p m. p)
     \<lparr>header = \<lparr>min_index_interval = 128, size_hdr = 0, memory_size = 0, sampling_level = 128,
                 size_at_full_sampling = 0\<rparr>,
      positions = [], entries = [], first_key = [], last_key = []\<rparr>
     \<lparr>next_data_offset_to_write_summary = 0, partition_count = 0, summary_byte_cost = 2\<rparr>
     [\<lparr>ie_token = [1], ie_key = [97], ie_data_offset = 0, ie_index_offset = 0\<rparr>,
      \<lparr>ie_token = [2], ie_key = [98], ie_data_offset = 15, ie_index_offset = 12\<rparr>,
      \<lparr>ie_token = [3], ie_key = [99], ie_data_offset = 30, ie_index_offset = 24\<rparr>]
   = Inr \<lparr>header = \<lparr>min_index_interval = 128, size_hdr = 2, memory_size = 26,
                      sampling_level = 128, size_at_full_sampling = 3\<rparr>,
           positions = [8, 17],
           entries = [\<lparr>token = [1], key = [97], position = 0\<rparr>,
                      \<lparr>token = [3], key = [99], position = 24\<rparr>],
           first_key = [97], last_key = [99]\<rparr>
   \<and> [\<lparr>token = [1], key = [97], position = 0\<rparr>, \<lparr>token = [3], key = [99], position = 24 :: u64\<rparr>]
       = [] @ sampled 0 2
           [\<lparr>ie_token = [1], ie_key = [97], ie_data_offset = 0, ie_index_offset = 0\<rparr>,
            \<lparr>ie_token = [2], ie_key = [98], ie_data_offset = 15, ie_index_offset = 12\<rparr>,
            \<lparr>ie_token = [3], ie_key = [99], ie_data_offset = 30, ie_index_offset = 24\<rparr>]"
proof -
  have h: "seal_sampled (\<lambda>p m. p)
     \<lparr>header = \<lparr>min_index_interval = 128, size_hdr = 0, memory_size = 0, sampling_level = 128,
                 size_at_full_sampling = 0\<rparr>,
      positions = [], entries = [], first_key = [], last_key = []\<rparr>
     \<lparr>next_data_offset_to_write_summary = 0, partition_count = 0, summary_byte_cost = 2\<rparr>
     [\<lparr>ie_token = [1], ie_key = [97], ie_data_offset = 0, ie_index_offset = 0\<rparr>,
      \<lparr>ie_token = [2], ie_key = [98], ie_data_offset = 15, ie_index_offset = 12\<rparr>,
      \<lparr>ie_token = [3], ie_key = [99], ie_data_offset = 30, ie_index_offset = 24\<rparr>]
   = Inr \<lparr>header = \<lparr>min_index_interval = 128, size_hdr = 2, memory_size = 26,
                      sampling_level = 128, size_at_full_sampling = 3\<rparr>,
           positions = [8, 17],
           entries = [\<lparr>token = [1], key = [97], position = 0\<rparr>,
                      \<lparr>token = [3], key = [99], position = 24\<rparr>],
           first_key = [97], last_key = [99]\<rparr>"
    by (simp add: seal_sampled_def seal_summary_def maybe_add_summary_entry_def)
  show ?thesis
    using seal_sampled_spec [OF h] h by simp
qed

text \<open>C8, as the claim words it, fails: with the default cost of 2000 a second partition that
  starts at data offset 60 is below the threshold 2000 * 11, so the sealed summary has the first
  index entry only; the last index entry is not among its entries.\<close>

theorem seal_sampled_counterexample:
  "seal_sampled (\<lambda>p m. p)
     \<lparr>header = \<lparr>min_index_interval = 128, size_hdr = 0, memory_size = 0, sampling_level = 128,
                 size_at_full_sampling = 0\<rparr>,
      positions = [], entries = [], first_key = [], last_key = []\<rparr>
     \<lparr>next_data_offset_to_write_summary = 0, partition_count = 0, summary_byte_cost = 2000\<rparr>
     [\<lparr>ie_token = [1], ie_key = [97], ie_data_offset = 0, ie_index_offset = 0\<rparr>,
      \<lparr>ie_token = [2], ie_key = [98], ie_data_offset = 60, ie_index_offset = 12\<rparr>]
   = Inr \<lparr>header = \<lparr>min_index_interval = 128, size_hdr = 1, memory_size = 13,
                      sampling_level = 128, size_at_full_sampling = 2\<rparr>,
           positions = [4],
           entries = [\<lparr>token = [1], key = [97], position = 0\<rparr>],
           first_key = [97], last_key = [98]\<rparr>
   \<and> summary_entry_of \<lparr>ie_token = [2], ie_key = [98], ie_data_offset = 60, ie_index_offset = 12\<rparr>
       \<notin> set [\<lparr>token = [1], key = [97], position = 0\<rparr>]"
  by (simp add: seal_sampled_def seal_summary_def maybe_add_summary_entry_def summary_entry_of_def)

section \<open>Properties of the statistics parser\<close>

lemma sorted_split_at:
  fixes k :: u32
  assumes "sorted (map fst xs)"
  shows "xs = filter (\<lambda>e. fst e < k) xs @ filter (\<lambda>e. \<not> fst e < k) xs"
  using assms
proof (induction xs)
  case Nil
  then show ?case by simp
next
  case (Cons x xs)
  show ?case
  proof (cases "fst x < k")
    case True
    with Cons show ?thesis by simp
  next
    case False
    with Cons.prems have "\<forall>y \<in> set xs. \<not> fst y < k"
      by (auto simp: not_less)
    then have "filter (\<lambda>e. fst e < k) xs = []" "filter (\<lambda>e. \<not> fst e < k) xs = xs"
      by (simp_all add: filter_empty_conv)
    with False show ?thesis by simp
  qed
qed

lemma sorted_first_at_least:
  fixes k :: u32
  assumes "sorted (map fst xs)" and "k \<in> fst ` set xs"
  shows "\<exists>off ys. filter (\<lambda>e. \<not> fst e < k) xs = (k, off) # ys"
  using assms
proof (induction xs)
  case Nil
  then show ?case by simp
next
  case (Cons x xs)
  show ?case
  proof (cases "fst x < k")
    case True
    with Cons show ?thesis by auto
  next
    case False
    from Cons.prems have "fst x \<le> k"
      by auto
    with False have "fst x = k" by simp
    with False show ?thesis
      by (cases x) auto
  qed
qed


lemma parse_statistics_entries_append:
  "parse_statistics_entries P v (xs @ ys) rd c =
     (case parse_statistics_entries P v xs rd c of
        Inl e \<Rightarrow> Inl e
      | Inr (c', rd') \<Rightarrow> parse_statistics_entries P v ys rd' c')"
  by (induction xs arbitrary: rd c) (simp_all split: sum.split)

lemma parse_statistics_entry_serialization:
  "v \<noteq> Mc \<Longrightarrow> parse_statistics_entry P v (Serialization, off) rd c =
     Inl serialization_header_error"
  by (simp add: parse_statistics_entry_def Validation_def Compaction_def Stats_def Serialization_def
        serialization_header_error_def)


lemma parse_statistics_entries_first_failure:
  "parse_statistics_entries P v xs rd c = Inl e \<Longrightarrow>
     \<exists>pre val post c' r. xs = pre @ val # post
        \<and> parse_statistics_entries P v pre rd c = Inr (c', r)
        \<and> parse_statistics_entry P v val r c' = Inl e"
proof (induction xs arbitrary: rd c)
  case Nil
  then show ?case by simp
next
  case (Cons x xs)
  show ?case
  proof (cases "parse_statistics_entry P v x rd c")
    case (Inl e')
    with Cons.prems have "e' = e"
      by simp
    with Inl have "x # xs = [] @ x # xs \<and> parse_statistics_entries P v [] rd c = Inr (c, rd)
        \<and> parse_statistics_entry P v x rd c = Inl e"
      by simp
    then show ?thesis
      by blast
  next
    case (Inr p)
    obtain c1 rd1 where p: "p = (c1, rd1)"
      by (cases p)
    with Inr Cons.prems have "parse_statistics_entries P v xs rd1 c1 = Inl e"
      by simp
    from Cons.IH [OF this] obtain pre val post c' r where
      "xs = pre @ val # post" "parse_statistics_entries P v pre rd1 c1 = Inr (c', r)"
      "parse_statistics_entry P v val r c' = Inl e"
      by blast
    with Inr p have "x # xs = (x # pre) @ val # post
        \<and> parse_statistics_entries P v (x # pre) rd c = Inr (c', r)
        \<and> parse_statistics_entry P v val r c' = Inl e"
      by simp
    then show ?thesis
      by blast
  qed
qed

lemma parse_statistics_entries_serialization_at_offset:
  "parse_statistics_entries P v xs rd c = Inr (c', rd') \<Longrightarrow> (Serialization, off) \<in> set xs \<Longrightarrow>
     v = Mc \<and> (\<exists>r m r'. rd_pos r = unat off \<and> parse_serialization_header P v r = Inr (m, r'))"
proof (induction xs arbitrary: rd c)
  case Nil
  then show ?case by simp
next
  case (Cons x xs)
  from Cons.prems(1) obtain c1 rd1 where
    x: "parse_statistics_entry P v x rd c = Inr (c1, rd1)"
    and rest: "parse_statistics_entries P v xs rd1 c1 = Inr (c', rd')"
    by (auto split: sum.splits)
  show ?case
  proof (cases "x = (Serialization, off)")
    case True
    from x have mc: "v = Mc"
      unfolding True
      by (auto simp: parse_statistics_entry_def Validation_def Compaction_def Stats_def
            Serialization_def split: if_splits)
    with x obtain m r' where "parse_serialization_header P v (seek (unat off) rd) = Inr (m, r')"
      unfolding True
      by (auto simp: parse_statistics_entry_def Validation_def Compaction_def Stats_def
            Serialization_def Let_def split: sum.splits)
    moreover have "rd_pos (seek (unat off) rd) = unat off"
      by (simp add: seek_def)
    ultimately show ?thesis
      using mc by blast
  next
    case False
    with Cons.prems(2) have "(Serialization, off) \<in> set xs"
      by simp
    from Cons.IH [OF rest this] show ?thesis .
  qed
qed

lemma sorted_prefix_le:
  fixes xs :: "(u32 \<times> u32) list"
  assumes "sorted (map fst xs)" and "xs = pre @ val # post"
  shows "\<forall>x \<in> set pre. fst x \<le> fst val"
  using assms by (auto simp: sorted_append)

text \<open>C6, as the code has it. When the tag-to-offset table has a Serialization entry:
  a parse that succeeds has version \<^verbatim>\<open>mc\<close>, leaves the table sorted by tag, is the walk over
  the sorted table, and has parsed the serialization header with the reader at the entry's
  offset. For any other version the parse fails: with
  \<^verbatim>\<open>std::runtime_error("Statistics is malformed: SSTable is in 2.x format but contains serialization header.")\<close>
  when the walk reaches the Serialization entry, and with the error of the first entry of smaller
  tag that fails to parse if there is one. Whatever the version, a parse that fails does so at an
  entry of the sorted table after the entries before it, of tags not greater, have parsed; and
  each kind of metadata is parsed with the reader at the offset of its entry.\<close>

theorem parse_statistics_serialization:
  assumes table: "parse_offsets rd (offsets s) = Inr (elements, rd1)"
    and ser: "Serialization \<in> fst ` set elements"
  shows "(\<forall>s' rd'. parse_statistics P v rd s = Inr (s', rd') \<longrightarrow>
             v = Mc \<and> offsets s' = sort_key fst elements
           \<and> parse_statistics_entries P v (sort_key fst elements) rd1 (contents s)
               = Inr (contents s', rd')
           \<and> (\<forall>off. (Serialization, off) \<in> set elements \<longrightarrow>
                 (\<exists>r m r'. rd_pos r = unat off
                    \<and> parse_serialization_header P v r = Inr (m, r'))))
       \<and> (v \<noteq> Mc \<longrightarrow>
            (\<exists>e. parse_statistics P v rd s = Inl e)
            \<and> (case parse_statistics_entries P v
                    (filter (\<lambda>e. fst e < Serialization) (sort_key fst elements)) rd1 (contents s) of
               Inl e \<Rightarrow> parse_statistics P v rd s = Inl e
             | Inr _ \<Rightarrow> parse_statistics P v rd s = Inl (Runtime_error
                 ''Statistics is malformed: SSTable is in 2.x format but contains serialization header.'')))
       \<and> (\<forall>e. parse_statistics P v rd s = Inl e \<longrightarrow>
            (\<exists>pre val post c r. sort_key fst elements = pre @ val # post
               \<and> (\<forall>x \<in> set pre. fst x \<le> fst val)
               \<and> parse_statistics_entries P v pre rd1 (contents s) = Inr (c, r)
               \<and> parse_statistics_entry P v val r c = Inl e))
       \<and> (\<forall>off r c. parse_statistics_entry P v (Validation, off) r c =
            (case parse_validation_metadata P v (r\<lparr>rd_pos := unat off\<rparr>) of Inl e \<Rightarrow> Inl e
             | Inr (m, r2) \<Rightarrow> Inr (c(Validation \<mapsto> m), r2)))
       \<and> (\<forall>off r c. parse_statistics_entry P v (Compaction, off) r c =
            (case parse_compaction_metadata P v (r\<lparr>rd_pos := unat off\<rparr>) of Inl e \<Rightarrow> Inl e
             | Inr (m, r2) \<Rightarrow> Inr (c(Compaction \<mapsto> m), r2)))
       \<and> (\<forall>off r c. parse_statistics_entry P v (Stats, off) r c =
            (case parse_stats_metadata P v (r\<lparr>rd_pos := unat off\<rparr>) of Inl e \<Rightarrow> Inl e
             | Inr (m, r2) \<Rightarrow> Inr (c(Stats \<mapsto> m), r2)))
       \<and> (\<forall>off r c. parse_statistics_entry P Mc (Serialization, off) r c =
            (case parse_serialization_header P Mc (r\<lparr>rd_pos := unat off\<rparr>) of Inl e \<Rightarrow> Inl e
             | Inr (m, r2) \<Rightarrow> Inr (c(Serialization \<mapsto> m), r2)))"
proof -
  let ?xs = "sort_key fst elements"
  let ?A = "filter (\<lambda>e. fst e < Serialization) ?xs"
  let ?B = "filter (\<lambda>e. \<not> fst e < Serialization) ?xs"
  let ?err = "Runtime_error
     ''Statistics is malformed: SSTable is in 2.x format but contains serialization header.''"
  have srt: "sorted (map fst ?xs)"
    by (rule sorted_sort_key)
  have mem: "Serialization \<in> fst ` set ?xs"
    using ser by simp
  have split: "?xs = ?A @ ?B"
    by (rule sorted_split_at [OF srt])
  obtain off ys where B: "?B = (Serialization, off) # ys"
    using sorted_first_at_least [OF srt mem] by blast
  have run: "parse_statistics_entries P v ?xs rd1 (contents s) =
      (case parse_statistics_entries P v ?A rd1 (contents s) of
         Inl e \<Rightarrow> Inl e
       | Inr (c', rd') \<Rightarrow> parse_statistics_entries P v ((Serialization, off) # ys) rd' c')"
    by (subst split) (simp only: parse_statistics_entries_append B)
  have ps: "parse_statistics P v rd s =
      (case parse_statistics_entries P v ?xs rd1 (contents s) of
         Inl e \<Rightarrow> Inl e
       | Inr (c, rd2) \<Rightarrow> Inr (s\<lparr>offsets := ?xs, contents := c\<rparr>, rd2))"
    by (simp add: parse_statistics_def table Let_def)
  have fail: "v \<noteq> Mc \<Longrightarrow>
      (case parse_statistics_entries P v ?A rd1 (contents s) of
         Inl e \<Rightarrow> parse_statistics P v rd s = Inl e
       | Inr _ \<Rightarrow> parse_statistics P v rd s = Inl ?err)"
    unfolding ps run
    by (simp add: parse_statistics_entry_serialization serialization_header_error_def
          split: sum.split)
  have fails: "\<exists>e. parse_statistics P v rd s = Inl e" if "v \<noteq> Mc"
    using fail [OF that] by (cases "parse_statistics_entries P v ?A rd1 (contents s)") simp_all
  have ok: "v = Mc \<and> offsets s' = ?xs
           \<and> parse_statistics_entries P v ?xs rd1 (contents s) = Inr (contents s', rd')
           \<and> (\<forall>off. (Serialization, off) \<in> set elements \<longrightarrow>
                 (\<exists>r m r'. rd_pos r = unat off
                    \<and> parse_serialization_header P v r = Inr (m, r')))"
    if "parse_statistics P v rd s = Inr (s', rd')" for s' rd'
  proof -
    from that have w: "parse_statistics_entries P v ?xs rd1 (contents s) = Inr (contents s', rd')"
      and o: "offsets s' = ?xs"
      unfolding ps by (auto split: sum.splits)
    have at: "v = Mc \<and> (\<exists>r m r'. rd_pos r = unat off
                    \<and> parse_serialization_header P v r = Inr (m, r'))"
      if "(Serialization, off) \<in> set elements" for off
      using parse_statistics_entries_serialization_at_offset [OF w, of off] that by auto
    from ser obtain off0 where "(Serialization, off0) \<in> set elements"
      by auto
    from at [OF this] have "v = Mc"
      by simp
    with w o at show ?thesis
      by blast
  qed
  have first: "\<exists>pre val post c r. ?xs = pre @ val # post
               \<and> (\<forall>x \<in> set pre. fst x \<le> fst val)
               \<and> parse_statistics_entries P v pre rd1 (contents s) = Inr (c, r)
               \<and> parse_statistics_entry P v val r c = Inl e"
    if "parse_statistics P v rd s = Inl e" for e
  proof -
    from that have "parse_statistics_entries P v ?xs rd1 (contents s) = Inl e"
      unfolding ps by (auto split: sum.splits)
    from parse_statistics_entries_first_failure [OF this] obtain pre val post c r where
      d: "?xs = pre @ val # post"
      and p: "parse_statistics_entries P v pre rd1 (contents s) = Inr (c, r)"
      and f: "parse_statistics_entry P v val r c = Inl e"
      by blast
    from sorted_prefix_le [OF srt d] d p f show ?thesis
      by blast
  qed
  have e1: "parse_statistics_entry P v (Validation, off) r c =
            (case parse_validation_metadata P v (r\<lparr>rd_pos := unat off\<rparr>) of Inl e \<Rightarrow> Inl e
             | Inr (m, r2) \<Rightarrow> Inr (c(Validation \<mapsto> m), r2))" for off r c
    by (simp add: parse_statistics_entry_def seek_def split: sum.split)
  have e2: "parse_statistics_entry P v (Compaction, off) r c =
            (case parse_compaction_metadata P v (r\<lparr>rd_pos := unat off\<rparr>) of Inl e \<Rightarrow> Inl e
             | Inr (m, r2) \<Rightarrow> Inr (c(Compaction \<mapsto> m), r2))" for off r c
    by (simp add: parse_statistics_entry_def seek_def Validation_def Compaction_def
          split: sum.split)
  have e3: "parse_statistics_entry P v (Stats, off) r c =
            (case parse_stats_metadata P v (r\<lparr>rd_pos := unat off\<rparr>) of Inl e \<Rightarrow> Inl e
             | Inr (m, r2) \<Rightarrow> Inr (c(Stats \<mapsto> m), r2))" for off r c
    by (simp add: parse_statistics_entry_def seek_def Validation_def Compaction_def Stats_def
          split: sum.split)
  have e4: "parse_statistics_entry P Mc (Serialization, off) r c =
            (case parse_serialization_header P Mc (r\<lparr>rd_pos := unat off\<rparr>) of Inl e \<Rightarrow> Inl e
             | Inr (m, r2) \<Rightarrow> Inr (c(Serialization \<mapsto> m), r2))" for off r c
    by (simp add: parse_statistics_entry_def seek_def Validation_def Compaction_def Stats_def
          Serialization_def split: sum.split)
  have A: "\<forall>s' rd'. parse_statistics P v rd s = Inr (s', rd') \<longrightarrow>
             v = Mc \<and> offsets s' = sort_key fst elements
           \<and> parse_statistics_entries P v (sort_key fst elements) rd1 (contents s)
               = Inr (contents s', rd')
           \<and> (\<forall>off. (Serialization, off) \<in> set elements \<longrightarrow>
                 (\<exists>r m r'. rd_pos r = unat off
                    \<and> parse_serialization_header P v r = Inr (m, r')))"
    by (intro allI impI) (rule ok)
  have B': "v \<noteq> Mc \<longrightarrow>
            (\<exists>e. parse_statistics P v rd s = Inl e)
            \<and> (case parse_statistics_entries P v ?A rd1 (contents s) of
               Inl e \<Rightarrow> parse_statistics P v rd s = Inl e
             | Inr _ \<Rightarrow> parse_statistics P v rd s = Inl ?err)"
    using fail fails by blast
  have C: "\<forall>e. parse_statistics P v rd s = Inl e \<longrightarrow>
            (\<exists>pre val post c r. ?xs = pre @ val # post
               \<and> (\<forall>x \<in> set pre. fst x \<le> fst val)
               \<and> parse_statistics_entries P v pre rd1 (contents s) = Inr (c, r)
               \<and> parse_statistics_entry P v val r c = Inl e)"
    by (intro allI impI) (rule first)
  from e1 have E1: "\<forall>off r c. parse_statistics_entry P v (Validation, off) r c =
            (case parse_validation_metadata P v (r\<lparr>rd_pos := unat off\<rparr>) of Inl e \<Rightarrow> Inl e
             | Inr (m, r2) \<Rightarrow> Inr (c(Validation \<mapsto> m), r2))"
    by (intro allI)
  from e2 have E2: "\<forall>off r c. parse_statistics_entry P v (Compaction, off) r c =
            (case parse_compaction_metadata P v (r\<lparr>rd_pos := unat off\<rparr>) of Inl e \<Rightarrow> Inl e
             | Inr (m, r2) \<Rightarrow> Inr (c(Compaction \<mapsto> m), r2))"
    by (intro allI)
  from e3 have E3: "\<forall>off r c. parse_statistics_entry P v (Stats, off) r c =
            (case parse_stats_metadata P v (r\<lparr>rd_pos := unat off\<rparr>) of Inl e \<Rightarrow> Inl e
             | Inr (m, r2) \<Rightarrow> Inr (c(Stats \<mapsto> m), r2))"
    by (intro allI)
  from e4 have E4: "\<forall>off r c. parse_statistics_entry P Mc (Serialization, off) r c =
            (case parse_serialization_header P Mc (r\<lparr>rd_pos := unat off\<rparr>) of Inl e \<Rightarrow> Inl e
             | Inr (m, r2) \<Rightarrow> Inr (c(Serialization \<mapsto> m), r2))"
    by (intro allI)
  from A B' C E1 E2 E3 E4 show ?thesis
    by (intro conjI)
qed

theorem parse_statistics_serialization_witness:
  "parse_offsets \<lparr>rd_data = [0,0,0,1, 0,0,0,3, 0,0,0,12], rd_pos = 0\<rparr> []
     = Inr ([(3, 12)], \<lparr>rd_data = [0,0,0,1, 0,0,0,3, 0,0,0,12], rd_pos = 12\<rparr>)
   \<and> Serialization \<in> fst ` set [(3, 12 :: u32)]
   \<and> La \<noteq> Mc
   \<and> parse_statistics
         \<lparr>parse_validation_metadata = parse_validation,
          parse_compaction_metadata = parse_validation,
          parse_stats_metadata = parse_validation,
          parse_serialization_header = parse_validation\<rparr>
         La \<lparr>rd_data = [0,0,0,1, 0,0,0,3, 0,0,0,12], rd_pos = 0\<rparr>
         \<lparr>offsets = [], contents = Map.empty\<rparr>
       = Inl (Runtime_error
           ''Statistics is malformed: SSTable is in 2.x format but contains serialization header.'')
   \<and> parse_offsets
         \<lparr>rd_data = [0,0,0,1, 0,0,0,3, 0,0,0,12, 0,0, 0,0,0,0,0,0,0,1], rd_pos = 0\<rparr> []
     = Inr ([(3, 12)],
            \<lparr>rd_data = [0,0,0,1, 0,0,0,3, 0,0,0,12, 0,0, 0,0,0,0,0,0,0,1], rd_pos = 12\<rparr>)
   \<and> (\<exists>c. parse_statistics
         \<lparr>parse_validation_metadata = parse_validation,
          parse_compaction_metadata = parse_validation,
          parse_stats_metadata = parse_validation,
          parse_serialization_header = parse_validation\<rparr>
         Mc \<lparr>rd_data = [0,0,0,1, 0,0,0,3, 0,0,0,12, 0,0, 0,0,0,0,0,0,0,1], rd_pos = 0\<rparr>
         \<lparr>offsets = [], contents = Map.empty\<rparr>
       = Inr (\<lparr>offsets = [(3, 12)], contents = c\<rparr>,
              \<lparr>rd_data = [0,0,0,1, 0,0,0,3, 0,0,0,12, 0,0, 0,0,0,0,0,0,0,1], rd_pos = 22\<rparr>)
       \<and> c 3 = Some ([], 1))
   \<and> (\<exists>r m r'. rd_pos r = 12 \<and> parse_validation Mc r = Inr (m, r'))"
proof -
  let ?P = "\<lparr>parse_validation_metadata = parse_validation,
          parse_compaction_metadata = parse_validation,
          parse_stats_metadata = parse_validation,
          parse_serialization_header = parse_validation\<rparr>"
  let ?s = "\<lparr>offsets = [], contents = Map.empty :: u32 \<rightharpoonup> bytes \<times> u64\<rparr>"
  let ?rd = "\<lparr>rd_data = [0,0,0,1, 0,0,0,3, 0,0,0,12], rd_pos = 0\<rparr>"
  let ?rd' = "\<lparr>rd_data = [0,0,0,1, 0,0,0,3, 0,0,0,12, 0,0, 0,0,0,0,0,0,0,1], rd_pos = 0\<rparr>"
  have t: "parse_offsets ?rd (offsets ?s)
     = Inr ([(3, 12)], \<lparr>rd_data = [0,0,0,1, 0,0,0,3, 0,0,0,12], rd_pos = 12\<rparr>)"
    by code_simp
  have t': "parse_offsets ?rd' (offsets ?s)
     = Inr ([(3, 12)],
            \<lparr>rd_data = [0,0,0,1, 0,0,0,3, 0,0,0,12, 0,0, 0,0,0,0,0,0,0,1], rd_pos = 12\<rparr>)"
    by code_simp
  have m: "Serialization \<in> fst ` set [(3, 12 :: u32)]"
    by (simp add: Serialization_def)
  have n: "La \<noteq> Mc"
    by simp
  have la: "parse_statistics ?P La ?rd ?s = Inl (Runtime_error
           ''Statistics is malformed: SSTable is in 2.x format but contains serialization header.'')"
    using parse_statistics_serialization [OF t m, of ?P La] n
    by (simp add: Serialization_def)
  have mc: "\<exists>c. parse_statistics ?P Mc ?rd' ?s
       = Inr (\<lparr>offsets = [(3, 12)], contents = c\<rparr>,
              \<lparr>rd_data = [0,0,0,1, 0,0,0,3, 0,0,0,12, 0,0, 0,0,0,0,0,0,0,1], rd_pos = 22\<rparr>)
       \<and> c 3 = Some ([], 1)"
    by (simp add: parse_statistics_def parse_offsets_def parse_u32_def parse_int_def
        read_exactly_def check_buf_size_def be_word_def Let_def parse_statistics_entry_def
        seek_def parse_validation_def parse_u64_def Validation_def Compaction_def Stats_def
        Serialization_def)
  then obtain s' rd' where ok: "parse_statistics ?P Mc ?rd' ?s = Inr (s', rd')"
    by blast
  have "(Serialization, 12) \<in> set [(3, 12 :: u32)]"
    by (simp add: Serialization_def)
  with parse_statistics_serialization [OF t' m, of ?P Mc] ok
  have at: "\<exists>r m r'. rd_pos r = 12 \<and> parse_validation Mc r = Inr (m, r')"
    by auto
  from t t' m n la mc at show ?thesis
    by simp
qed

text \<open>C6, as the claim words it, fails: in an sstable of version \<^verbatim>\<open>la\<close> whose table lists a
  Serialization entry only, the parse raises a \<^verbatim>\<open>std::runtime_error\<close>, which is not a
  \<^verbatim>\<open>malformed_sstable_exception\<close>.\<close>

theorem parse_statistics_serialization_counterexample:
  "parse_statistics
     \<lparr>parse_validation_metadata = parse_validation,
      parse_compaction_metadata = parse_validation,
      parse_stats_metadata = parse_validation,
      parse_serialization_header = parse_validation\<rparr>
     La \<lparr>rd_data = [0,0,0,1, 0,0,0,3, 0,0,0,12], rd_pos = 0\<rparr>
     \<lparr>offsets = [], contents = Map.empty\<rparr>
   = Inl (Runtime_error
       ''Statistics is malformed: SSTable is in 2.x format but contains serialization header.'')
   \<and> Runtime_error
       ''Statistics is malformed: SSTable is in 2.x format but contains serialization header.''
     \<noteq> Malformed_sstable_exception
       ''Statistics is malformed: SSTable is in 2.x format but contains serialization header.''"
  by code_simp

section \<open>Properties of the \<^verbatim>\<open>mc\<close> writer\<close>

lemma and_then_Inr [simp]: "and_then (Inr x) f = f x"
  by (simp add: and_then_def)

lemma and_then_Inl [simp]: "and_then (Inl e) f = Inl e"
  by (simp add: and_then_def)

lemma and_then_eq_Inr:
  "and_then r f = Inr y \<longleftrightarrow> (\<exists>x. r = Inr x \<and> f x = Inr y)"
  by (cases r) simp_all

lemma maybe_add_pi_block_result:
  assumes "first_clustering st = Some f" and "last_clustering st = Some l"
  shows "\<exists>pi fc bn. maybe_add_pi_block st =
           Inr (st\<lparr>promoted_index := pi, first_clustering := fc, block_next_start_offset := bn\<rparr>)"
proof (cases "data_writer_offset st \<ge> block_next_start_offset st")
  case True
  have "maybe_add_pi_block st =
      Inr (st\<lparr>promoted_index := promoted_index st @
                 [\<lparr>pib_first = f, pib_last = l,
                   pib_offset = block_start_offset st - start_offset st,
                   pib_width = data_writer_offset st - block_start_offset st,
                   pib_open_marker = (case end_open_marker st of
                                         Some m \<Rightarrow> Some (rtm_tomb m) | None \<Rightarrow> None)\<rparr>],
              first_clustering := None,
              block_next_start_offset := data_writer_offset st + desired_block_size st\<rparr>)"
    using True assms by (simp add: maybe_add_pi_block_def add_pi_block_def Let_def)
  then show ?thesis
    by (intro exI)
next
  case False
  have "maybe_add_pi_block st =
      Inr (st\<lparr>promoted_index := promoted_index st, first_clustering := first_clustering st,
              block_next_start_offset := block_next_start_offset st\<rparr>)"
    using False by (simp add: maybe_add_pi_block_def Let_def)
  then show ?thesis
    by (intro exI)
qed

lemma write_clustered_result:
  "\<exists>pi fc bs bn. write_clustered env info item st =
     Inr (st\<lparr>data := data st @ [item (data_writer_offset st - prev_row_start st)],
             data_writer_offset := data_writer_offset st
                + item_size env (item (data_writer_offset st - prev_row_start st)),
             last_clustering := Some info, prev_row_start := data_writer_offset st,
             promoted_index := pi, first_clustering := fc, block_start_offset := bs,
             block_next_start_offset := bn\<rparr>)"
proof -
  let ?st1 = "maybe_set_pi_first_clustering info st"
  let ?st2 = "write_data env (item (data_writer_offset ?st1 - prev_row_start ?st1)) ?st1"
  let ?st3 = "?st2\<lparr>last_clustering := Some info, prev_row_start := data_writer_offset ?st1\<rparr>"
  obtain f where f: "first_clustering ?st3 = Some f"
    by (cases "first_clustering st") (simp_all add: maybe_set_pi_first_clustering_def write_data_def Let_def)
  have l: "last_clustering ?st3 = Some info"
    by simp
  from maybe_add_pi_block_result [OF f l] obtain pi fc bn where
    m: "maybe_add_pi_block ?st3 =
          Inr (?st3\<lparr>promoted_index := pi, first_clustering := fc, block_next_start_offset := bn\<rparr>)"
    by blast
  have w: "write_clustered env info item st = maybe_add_pi_block ?st3"
    by (simp add: write_clustered_def Let_def)
  show ?thesis
  proof (cases "first_clustering st")
    case None
    show ?thesis
      unfolding w m
      by (rule exI [of _ pi], rule exI [of _ fc], rule exI [of _ "data_writer_offset st"],
          rule exI [of _ bn])
        (simp add: maybe_set_pi_first_clustering_def write_data_def None Let_def)
  next
    case (Some a)
    show ?thesis
      unfolding w m
      by (rule exI [of _ pi], rule exI [of _ fc], rule exI [of _ "block_start_offset st"],
          rule exI [of _ bn])
        (simp add: maybe_set_pi_first_clustering_def write_data_def Some Let_def)
  qed
qed


lemma markers_written_refl: "markers_written st st"
  by (simp add: markers_written_def)

lemma markers_written_trans:
  assumes "markers_written st st1" and "markers_written st1 st2"
  shows "markers_written st st2"
proof -
  from assms obtain ms ms' where "data st1 = data st @ ms" "list_all is_rt_marker_item ms"
    "data st2 = data st1 @ ms'" "list_all is_rt_marker_item ms'"
    unfolding markers_written_def by blast
  then have "data st2 = data st @ (ms @ ms') \<and> list_all is_rt_marker_item (ms @ ms')"
    by simp
  then have "\<exists>ms. data st2 = data st @ ms \<and> list_all is_rt_marker_item ms"
    by (rule exI)
  with assms show ?thesis
    by (simp add: markers_written_def)
qed

lemma markers_written_end_open_marker:
  "markers_written st (st\<lparr>end_open_marker := m\<rparr>)"
  by (simp add: markers_written_def)

lemma consume_rt_marker_result:
  assumes "rtm_kind m \<noteq> static_clustering_m"
  shows "\<exists>pi fc bs bn. consume_rt_marker env m st =
     Inr (st\<lparr>data := data st @ [Rt_marker m (data_writer_offset st - prev_row_start st)],
             data_writer_offset := data_writer_offset st
                + item_size env (Rt_marker m (data_writer_offset st - prev_row_start st)),
             last_clustering := Some \<lparr>ci_clustering = rtm_clustering m, ci_kind = rtm_kind m\<rparr>,
             prev_row_start := data_writer_offset st,
             promoted_index := pi, first_clustering := fc, block_start_offset := bs,
             block_next_start_offset := bn\<rparr>)"
  using assms write_clustered_result [of env "\<lparr>ci_clustering = rtm_clustering m, ci_kind = rtm_kind m\<rparr>"
      "Rt_marker m" st]
  by (simp add: consume_rt_marker_def)

lemma consume_rt_marker_markers_written:
  assumes "consume_rt_marker env m st = Inr st'"
  shows "markers_written st st'"
proof -
  from assms have k: "rtm_kind m \<noteq> static_clustering_m"
    by (auto simp: consume_rt_marker_def split: if_splits)
  from consume_rt_marker_result [OF k, of env st] assms obtain pi fc bs bn where
    "st' = st\<lparr>data := data st @ [Rt_marker m (data_writer_offset st - prev_row_start st)],
             data_writer_offset := data_writer_offset st
                + item_size env (Rt_marker m (data_writer_offset st - prev_row_start st)),
             last_clustering := Some \<lparr>ci_clustering = rtm_clustering m, ci_kind = rtm_kind m\<rparr>,
             prev_row_start := data_writer_offset st,
             promoted_index := pi, first_clustering := fc, block_start_offset := bs,
             block_next_start_offset := bn\<rparr>"
    by auto
  then show ?thesis
    by (simp add: markers_written_def)
qed

lemma flush_end_open_marker_markers_written:
  assumes "flush_end_open_marker env st = Inr st'"
  shows "markers_written st st'"
proof (cases "end_open_marker st")
  case None
  with assms show ?thesis by (simp add: flush_end_open_marker_def)
next
  case (Some m)
  with assms have "consume_rt_marker env m (st\<lparr>end_open_marker := None\<rparr>) = Inr st'"
    by (simp add: flush_end_open_marker_def)
  from consume_rt_marker_markers_written [OF this] show ?thesis
    by (rule markers_written_trans [OF markers_written_end_open_marker])
qed

lemma write_rt_boundary_markers_written:
  assumes "write_rt_boundary env rt st = Inr st'"
  shows "markers_written st st'"
proof (cases "end_open_marker st")
  case None
  with assms show ?thesis by (simp add: write_rt_boundary_def)
next
  case (Some m)
  with assms have "consume_rt_marker env
                \<lparr>rtm_clustering = rt_start rt, rtm_kind = boundary_kind rt, rtm_tomb = rtm_tomb m,
                 rtm_boundary_tomb = Some (rt_tomb rt)\<rparr>
                 (st\<lparr>end_open_marker := Some (get_rt_end rt)\<rparr>) = Inr st'"
    by (simp add: write_rt_boundary_def Let_def)
  from consume_rt_marker_markers_written [OF this] show ?thesis
    by (rule markers_written_trans [OF markers_written_end_open_marker])
qed


lemma drain_step_markers_written:
  assumes "drain_step env rt st = Inr st'"
  shows "markers_written st st'"
proof -
  from assms obtain st1 need where
    first: "(case end_open_marker st of
          Some m \<Rightarrow>
            if equal_compare env (rt_marker_position env m) (rt_position rt) then
              and_then (write_rt_boundary env rt st) (\<lambda>st1. Inr (st1, False))
            else if less_compare env (rt_position rt) (rt_marker_position env m) then
              (if rtm_tomb m \<noteq> rt_tomb rt then
                 and_then (write_rt_boundary env rt st) (\<lambda>st1. Inr (st1, False))
               else Inr (st\<lparr>end_open_marker := Some (get_rt_end rt)\<rparr>, False))
            else and_then (flush_end_open_marker env st) (\<lambda>st1. Inr (st1, True))
        | None \<Rightarrow> Inr (st, True)) = Inr (st1, need)"
    and second: "(if need
          then consume_rt_marker env (get_rt_start rt)
                 (st1\<lparr>end_open_marker := Some (get_rt_end rt)\<rparr>)
          else Inr st1) = Inr st'"
    unfolding drain_step_def and_then_eq_Inr by auto
  have a: "markers_written st st1"
  proof (cases "end_open_marker st")
    case None
    with first show ?thesis by (simp add: markers_written_refl)
  next
    case (Some m)
    with first show ?thesis
      by (auto simp: and_then_eq_Inr markers_written_end_open_marker
            dest: write_rt_boundary_markers_written flush_end_open_marker_markers_written
            split: if_splits)
  qed
  have b: "markers_written st1 st'"
  proof (cases need)
    case True
    with second have "consume_rt_marker env (get_rt_start rt)
                 (st1\<lparr>end_open_marker := Some (get_rt_end rt)\<rparr>) = Inr st'"
      by simp
    from consume_rt_marker_markers_written [OF this] show ?thesis
      by (rule markers_written_trans [OF markers_written_end_open_marker])
  next
    case False
    with second show ?thesis by (simp add: markers_written_refl)
  qed
  from a b show ?thesis by (rule markers_written_trans)
qed

lemma drain_loop_markers_written:
  "drain_loop env rts st = Inr st' \<Longrightarrow> markers_written st st'"
proof (induction rts arbitrary: st)
  case Nil
  then show ?case by (simp add: markers_written_refl)
next
  case (Cons rt rts)
  from Cons.prems obtain st1 where "drain_step env rt st = Inr st1" "drain_loop env rts st1 = Inr st'"
    by (auto simp: and_then_eq_Inr)
  then show ?case
    using drain_step_markers_written Cons.IH markers_written_trans by blast
qed


lemma ensure_tombstone_is_written_result:
  "\<exists>o' h t. ensure_tombstone_is_written env st =
     st\<lparr>data := data st @ (if tombstone_written st then []
                            else [Deletion_time (to_deletion_time empty_tombstone)]),
        data_writer_offset := o', partition_header_length := h, pi_tomb := t,
        tombstone_written := True\<rparr>"
proof (cases "tombstone_written st")
  case True
  then have "ensure_tombstone_is_written env st =
     st\<lparr>data := data st @ (if tombstone_written st then []
                            else [Deletion_time (to_deletion_time empty_tombstone)]),
        data_writer_offset := data_writer_offset st,
        partition_header_length := partition_header_length st, pi_tomb := pi_tomb st,
        tombstone_written := True\<rparr>"
    by (simp add: ensure_tombstone_is_written_def)
  then show ?thesis by (intro exI)
next
  case False
  then have "ensure_tombstone_is_written env st =
     st\<lparr>data := data st @ (if tombstone_written st then []
                            else [Deletion_time (to_deletion_time empty_tombstone)]),
        data_writer_offset := data_writer_offset st
           + item_size env (Deletion_time (to_deletion_time empty_tombstone)),
        partition_header_length := partition_header_length st
           + (data_writer_offset st + item_size env (Deletion_time (to_deletion_time empty_tombstone))
              - data_writer_offset st),
        pi_tomb := empty_tombstone,
        tombstone_written := True\<rparr>"
    by (simp add: ensure_tombstone_is_written_def consume_tombstone_def write_data_def Let_def)
  then show ?thesis by (intro exI)
qed

lemma consume_static_row_result:
  assumes "consume_static_row env sr st = Inr st'"
  shows "\<exists>o' h t rc. st' =
     st\<lparr>data := data st @ (if tombstone_written st then []
                            else [Deletion_time (to_deletion_time empty_tombstone)])
                     @ [Static_row sr],
        data_writer_offset := o', partition_header_length := h, pi_tomb := t,
        tombstone_written := True, rows_count := rc, static_row_written := True\<rparr>"
proof -
  obtain o' h t where e: "ensure_tombstone_is_written env st =
     st\<lparr>data := data st @ (if tombstone_written st then []
                            else [Deletion_time (to_deletion_time empty_tombstone)]),
        data_writer_offset := o', partition_header_length := h, pi_tomb := t,
        tombstone_written := True\<rparr>"
    using ensure_tombstone_is_written_result by blast
  from assms have c: "is_compound env"
    by (auto simp: consume_static_row_def write_static_row_def split: if_splits)
  let ?st1 = "ensure_tombstone_is_written env st"
  from assms c have "st' =
     st\<lparr>data := data st @ (if tombstone_written st then []
                            else [Deletion_time (to_deletion_time empty_tombstone)])
                     @ [Static_row sr],
        data_writer_offset := o' + item_size env (Static_row sr),
        partition_header_length := h + (o' + item_size env (Static_row sr) - o'),
        pi_tomb := t,
        tombstone_written := True, rows_count := rows_count st + 1, static_row_written := True\<rparr>"
    unfolding consume_static_row_def e
    by (auto simp: write_static_row_def write_data_def Let_def)
  then show ?thesis by (intro exI)
qed


lemma header_written:
  assumes "ensure_static_row_is_written_if_needed env (ensure_tombstone_is_written env st) = Inr st1"
  shows "data st1 = data st @ missing_header_items env st
       \<and> index st1 = index st \<and> partition_key st1 = partition_key st
       \<and> tombstone_written st1
       \<and> (has_static_columns env \<longrightarrow> static_row_written st1)
       \<and> (static_row_written st \<longrightarrow> static_row_written st1)"
proof -
  let ?st0 = "ensure_tombstone_is_written env st"
  obtain o' h t where e: "?st0 =
     st\<lparr>data := data st @ (if tombstone_written st then []
                            else [Deletion_time (to_deletion_time empty_tombstone)]),
        data_writer_offset := o', partition_header_length := h, pi_tomb := t,
        tombstone_written := True\<rparr>"
    using ensure_tombstone_is_written_result by blast
  show ?thesis
  proof (cases "has_static_columns env \<and> \<not> static_row_written st")
    case True
    then have "has_static_columns env \<and> \<not> static_row_written ?st0"
      by (simp add: e)
    with assms have "consume_static_row env [] ?st0 = Inr st1"
      by (simp add: ensure_static_row_is_written_if_needed_def)
    from consume_static_row_result [OF this] obtain o2 h2 t2 rc where
      "st1 = ?st0\<lparr>data := data ?st0 @ (if tombstone_written ?st0 then []
                            else [Deletion_time (to_deletion_time empty_tombstone)])
                     @ [Static_row []],
        data_writer_offset := o2, partition_header_length := h2, pi_tomb := t2,
        tombstone_written := True, rows_count := rc, static_row_written := True\<rparr>"
      by blast
    then have "st1 = st\<lparr>data := data st @ (if tombstone_written st then []
                            else [Deletion_time (to_deletion_time empty_tombstone)])
                     @ [Static_row []],
        data_writer_offset := o2, partition_header_length := h2, pi_tomb := t2,
        tombstone_written := True, rows_count := rc, static_row_written := True\<rparr>"
      by (simp add: e)
    with True show ?thesis
      by (simp add: missing_header_items_def)
  next
    case False
    then have "\<not> (has_static_columns env \<and> \<not> static_row_written ?st0)"
      by (simp add: e)
    with assms have "st1 = ?st0"
      by (simp add: ensure_static_row_is_written_if_needed_def)
    with False show ?thesis
      by (auto simp: e missing_header_items_def)
  qed
qed

lemma drain_tombstones_result:
  assumes "drain_tombstones env pos rts st = Inr st'"
  shows "index st' = index st \<and> partition_key st' = partition_key st
       \<and> tombstone_written st'
       \<and> (has_static_columns env \<longrightarrow> static_row_written st')
       \<and> (static_row_written st \<longrightarrow> static_row_written st')
       \<and> (\<exists>ms. data st' = data st @ missing_header_items env st @ ms
                \<and> list_all is_rt_marker_item ms)"
proof -
  from assms obtain st1 st2 where
    h: "ensure_static_row_is_written_if_needed env (ensure_tombstone_is_written env st) = Inr st1"
    and l: "drain_loop env rts st1 = Inr st2"
    and f: "(case end_open_marker st2 of
                    Some m \<Rightarrow>
                      if (case pos of None \<Rightarrow> True
                          | Some p \<Rightarrow> less_compare env (rt_marker_position env m) p)
                      then flush_end_open_marker env st2
                      else Inr st2
                  | None \<Rightarrow> Inr st2) = Inr st'"
    unfolding drain_tombstones_def and_then_eq_Inr by blast
  have "markers_written st2 st'"
  proof (cases "end_open_marker st2")
    case None
    with f show ?thesis by (simp add: markers_written_refl)
  next
    case (Some m)
    with f show ?thesis
      by (auto simp: markers_written_refl dest: flush_end_open_marker_markers_written
            split: if_splits)
  qed
  with drain_loop_markers_written [OF l] have m: "markers_written st1 st'"
    by (rule markers_written_trans)
  then obtain ms where ms: "data st' = data st1 @ ms" "list_all is_rt_marker_item ms"
    unfolding markers_written_def by blast
  from header_written [OF h] ms have
    "data st' = data st @ missing_header_items env st @ ms \<and> list_all is_rt_marker_item ms"
    by simp
  then have "\<exists>ms. data st' = data st @ missing_header_items env st @ ms
                \<and> list_all is_rt_marker_item ms"
    by (rule exI)
  with header_written [OF h] m show ?thesis
    by (simp add: markers_written_def)
qed

text \<open>C4. When a range tombstone is open and the next range tombstone starts at the position
  of the open end marker, the round of the drain loop succeeds, writes exactly one marker, a
  boundary at the new tombstone's start that carries the open tombstone as the closing one and the
  new tombstone as the opening one, and leaves the new tombstone's end as the open end marker.\<close>

theorem drain_step_boundary:
  assumes "end_open_marker st = Some m"
    and "equal_compare env (rt_marker_position env m) (rt_position rt)"
  shows "\<exists>st'. drain_step env rt st = Inr st'
           \<and> data st' = data st @
                [Rt_marker \<lparr>rtm_clustering = rt_start rt, rtm_kind = boundary_kind rt,
                            rtm_tomb = rtm_tomb m, rtm_boundary_tomb = Some (rt_tomb rt)\<rparr>
                   (data_writer_offset st - prev_row_start st)]
           \<and> end_open_marker st' = Some (get_rt_end rt)
           \<and> (boundary_kind rt = excl_end_incl_start_m \<or> boundary_kind rt = incl_end_excl_start_m)"
proof -
  let ?bm = "\<lparr>rtm_clustering = rt_start rt, rtm_kind = boundary_kind rt,
              rtm_tomb = rtm_tomb m, rtm_boundary_tomb = Some (rt_tomb rt)\<rparr>"
  let ?st0 = "st\<lparr>end_open_marker := Some (get_rt_end rt)\<rparr>"
  have k: "boundary_kind rt = excl_end_incl_start_m \<or> boundary_kind rt = incl_end_excl_start_m"
    by (simp add: boundary_kind_def)
  then have ns: "rtm_kind ?bm \<noteq> static_clustering_m"
    by auto
  from consume_rt_marker_result [OF ns, of env ?st0] obtain pi fc bs bn where
    c: "consume_rt_marker env ?bm ?st0 =
     Inr (?st0\<lparr>data := data ?st0 @ [Rt_marker ?bm (data_writer_offset ?st0 - prev_row_start ?st0)],
             data_writer_offset := data_writer_offset ?st0
                + item_size env (Rt_marker ?bm (data_writer_offset ?st0 - prev_row_start ?st0)),
             last_clustering := Some \<lparr>ci_clustering = rtm_clustering ?bm, ci_kind = rtm_kind ?bm\<rparr>,
             prev_row_start := data_writer_offset ?st0,
             promoted_index := pi, first_clustering := fc, block_start_offset := bs,
             block_next_start_offset := bn\<rparr>)"
    by blast
  have d: "drain_step env rt st = consume_rt_marker env ?bm ?st0"
    using assms by (simp add: drain_step_def write_rt_boundary_def Let_def and_then_def
        split: sum.split)
  show ?thesis
    unfolding d c using k by simp
qed



theorem drain_step_boundary_witness:
  "end_open_marker
     (example_state\<lparr>end_open_marker :=
        Some \<lparr>rtm_clustering = [[2]], rtm_kind = incl_end_m,
              rtm_tomb = \<lparr>timestamp = 10, deletion_time = 100\<rparr>, rtm_boundary_tomb = None\<rparr>\<rparr>)
     = Some \<lparr>rtm_clustering = [[2]], rtm_kind = incl_end_m,
             rtm_tomb = \<lparr>timestamp = 10, deletion_time = 100\<rparr>, rtm_boundary_tomb = None\<rparr>
   \<and> equal_compare example_env
         (rt_marker_position example_env
            \<lparr>rtm_clustering = [[2]], rtm_kind = incl_end_m,
             rtm_tomb = \<lparr>timestamp = 10, deletion_time = 100\<rparr>, rtm_boundary_tomb = None\<rparr>)
         (rt_position \<lparr>rt_start = [[2]], rt_start_kind = excl_start, rt_end = [[9]],
                       rt_end_kind = incl_end,
                       rt_tomb = \<lparr>timestamp = 20, deletion_time = 200\<rparr>\<rparr>)
   \<and> (\<exists>st'. drain_step example_env
                \<lparr>rt_start = [[2]], rt_start_kind = excl_start, rt_end = [[9]],
                 rt_end_kind = incl_end, rt_tomb = \<lparr>timestamp = 20, deletion_time = 200\<rparr>\<rparr>
                (example_state\<lparr>end_open_marker :=
                   Some \<lparr>rtm_clustering = [[2]], rtm_kind = incl_end_m,
                         rtm_tomb = \<lparr>timestamp = 10, deletion_time = 100\<rparr>,
                         rtm_boundary_tomb = None\<rparr>\<rparr>) = Inr st'
         \<and> data st' = [Rt_marker \<lparr>rtm_clustering = [[2]], rtm_kind = incl_end_excl_start_m,
                                   rtm_tomb = \<lparr>timestamp = 10, deletion_time = 100\<rparr>,
                                   rtm_boundary_tomb = Some \<lparr>timestamp = 20, deletion_time = 200\<rparr>\<rparr>
                          0]
         \<and> end_open_marker st' =
             Some \<lparr>rtm_clustering = [[9]], rtm_kind = incl_end_m,
                   rtm_tomb = \<lparr>timestamp = 20, deletion_time = 200\<rparr>, rtm_boundary_tomb = None\<rparr>)"
proof -
  have a: "end_open_marker
     (example_state\<lparr>end_open_marker :=
        Some \<lparr>rtm_clustering = [[2]], rtm_kind = incl_end_m,
              rtm_tomb = \<lparr>timestamp = 10, deletion_time = 100\<rparr>, rtm_boundary_tomb = None\<rparr>\<rparr>)
     = Some \<lparr>rtm_clustering = [[2]], rtm_kind = incl_end_m,
             rtm_tomb = \<lparr>timestamp = 10, deletion_time = 100\<rparr>, rtm_boundary_tomb = None\<rparr>"
    by simp
  have b: "equal_compare example_env
         (rt_marker_position example_env
            \<lparr>rtm_clustering = [[2]], rtm_kind = incl_end_m,
             rtm_tomb = \<lparr>timestamp = 10, deletion_time = 100\<rparr>, rtm_boundary_tomb = None\<rparr>)
         (rt_position \<lparr>rt_start = [[2]], rt_start_kind = excl_start, rt_end = [[9]],
                       rt_end_kind = incl_end,
                       rt_tomb = \<lparr>timestamp = 20, deletion_time = 200\<rparr>\<rparr>)"
    by (simp add: example_env_def rt_marker_position_def rt_position_def)
  show ?thesis
    using drain_step_boundary [OF a b] a b
    by (simp add: boundary_kind_def get_rt_end_def example_state_def)
qed

lemma add_last_pi_block_result:
  assumes "add_last_pi_block st = Inr st'"
  shows "index st' = index st \<and> partition_key st' = partition_key st \<and> data st' = data st
       \<and> (\<exists>bs. promoted_index st' = promoted_index st @ bs
                \<and> length bs = (if promoted_index st \<noteq> [] \<and> first_clustering st \<noteq> None
                                then 1 else 0))"
  using assms
  by (auto simp: add_last_pi_block_def add_pi_block_def split: if_splits option.splits)

lemma write_clustered_row_result:
  assumes "write_clustered_row env cr st = Inr st'"
  shows "tombstone_written st' = tombstone_written st
       \<and> static_row_written st' = static_row_written st
       \<and> (\<exists>p. data st' = data st @ [Clustering_row cr p])"
proof -
  let ?st0 = "st\<lparr>rows_count := rows_count st + 1\<rparr>"
  from write_clustered_result [of env "\<lparr>ci_clustering = cr_key cr, ci_kind = clustering_m\<rparr>"
      "\<lambda>prev. Clustering_row cr prev" ?st0] assms
  obtain pi fc bs bn where
    "st' = ?st0\<lparr>data := data ?st0 @ [Clustering_row cr (data_writer_offset ?st0 - prev_row_start ?st0)],
             data_writer_offset := data_writer_offset ?st0
                + item_size env (Clustering_row cr (data_writer_offset ?st0 - prev_row_start ?st0)),
             last_clustering := Some \<lparr>ci_clustering = cr_key cr, ci_kind = clustering_m\<rparr>,
             prev_row_start := data_writer_offset ?st0,
             promoted_index := pi, first_clustering := fc, block_start_offset := bs,
             block_next_start_offset := bn\<rparr>"
    by (auto simp: write_clustered_row_def)
  then show ?thesis by simp
qed

lemma rt_markers_are_clustered: "list_all is_rt_marker_item ms \<Longrightarrow> list_all is_clustered_item ms"
proof (induction ms)
  case Nil
  then show ?case by simp
next
  case (Cons m ms)
  then show ?case by (cases m) simp_all
qed

lemma consume_clustered_event_result:
  assumes "is_clustered_event e" and "consume env e st = Inr st'"
  shows "tombstone_written st'
       \<and> (has_static_columns env \<longrightarrow> static_row_written st')
       \<and> (\<exists>cl. data st' = data st @ missing_header_items env st @ cl
                \<and> list_all is_clustered_item cl)"
proof (cases e)
  case (Clustering_row_event cr rts)
  with assms(2) obtain st1 where
    d: "drain_tombstones env (Some (after_key (cr_key cr))) rts st = Inr st1"
    and w: "write_clustered_row env cr st1 = Inr st'"
    by (auto simp: and_then_eq_Inr)
  from drain_tombstones_result [OF d] obtain ms where
    ms: "data st1 = data st @ missing_header_items env st @ ms" "list_all is_rt_marker_item ms"
    and f: "tombstone_written st1" "has_static_columns env \<longrightarrow> static_row_written st1"
    by blast
  from write_clustered_row_result [OF w] obtain p where
    p: "data st' = data st1 @ [Clustering_row cr p]"
    and f': "tombstone_written st' = tombstone_written st1"
       "static_row_written st' = static_row_written st1"
    by blast
  have "data st' = data st @ missing_header_items env st @ (ms @ [Clustering_row cr p])
      \<and> list_all is_clustered_item (ms @ [Clustering_row cr p])"
    using ms p by (simp add: rt_markers_are_clustered)
  then have "\<exists>cl. data st' = data st @ missing_header_items env st @ cl
                \<and> list_all is_clustered_item cl"
    by (rule exI)
  with f f' show ?thesis by simp
next
  case (Range_tombstone_event rt rts)
  with assms(2) have d: "drain_tombstones env (Some (rt_position rt)) rts st = Inr st'"
    by simp
  from drain_tombstones_result [OF d] obtain ms where
    ms: "data st' = data st @ missing_header_items env st @ ms" "list_all is_rt_marker_item ms"
    and f: "tombstone_written st'" "has_static_columns env \<longrightarrow> static_row_written st'"
    by blast
  from ms have "data st' = data st @ missing_header_items env st @ ms
      \<and> list_all is_clustered_item ms"
    by (simp add: rt_markers_are_clustered)
  then have "\<exists>cl. data st' = data st @ missing_header_items env st @ cl
                \<and> list_all is_clustered_item cl"
    by (rule exI)
  with f show ?thesis by simp
qed (use assms(1) in simp_all)

lemma consume_end_of_partition_data:
  assumes "consume_end_of_partition env rts st = Inr (st', stop)"
  shows "\<exists>ms. data st' = data st @ missing_header_items env st @ ms @ [End_of_partition]
             \<and> list_all is_clustered_item ms"
proof -
  from assms obtain st1 st2 st3 where
    d: "drain_tombstones env None rts st = Inr st1"
    and a: "add_last_pi_block (write_data env End_of_partition st1) = Inr st2"
    and w: "write_index_promoted env st2 = Inr st3"
    and r: "(case partition_key st3 of
                   None \<Rightarrow> Inl Out_of_bounds
                 | Some k \<Rightarrow>
                    (let st4 = st3\<lparr>partition_size := data_writer_offset st3 - start_offset st3\<rparr>;
                         st5 = st4\<lparr>start_offset := 0, rows_count := 0, partition_size := 0\<rparr>;
                         st6 = st5\<lparr>writer_first_key :=
                                     (if writer_first_key st5 = None then Some k
                                      else writer_first_key st5),
                                   writer_last_key := Some k, partition_key := Some []\<rparr>
                     in Inr (st6, \<not> get_data_offset env st6 < max_sstable_size env))) = Inr (st', stop)"
    unfolding consume_end_of_partition_def and_then_eq_Inr by blast
  from r have d3: "data st' = data st3"
    by (auto simp: Let_def split: option.splits)
  from w have d2: "data st3 = data st2"
    by (auto simp: write_index_promoted_def and_then_eq_Inr split: if_splits)
  from add_last_pi_block_result [OF a] have d1: "data st2 = data st1 @ [End_of_partition]"
    by (simp add: write_data_def)
  from drain_tombstones_result [OF d] obtain ms where
    ms: "data st1 = data st @ missing_header_items env st @ ms" "list_all is_rt_marker_item ms"
    by blast
  have "data st' = data st @ missing_header_items env st @ ms @ [End_of_partition]
      \<and> list_all is_clustered_item ms"
    using ms by (simp add: d3 d2 d1 rt_markers_are_clustered)
  then show ?thesis by (rule exI)
qed

lemma missing_header_items_complete:
  "tombstone_written st \<Longrightarrow> has_static_columns env \<longrightarrow> static_row_written st
     \<Longrightarrow> missing_header_items env st = []"
  by (simp add: missing_header_items_def)

lemma clustered_events_data:
  assumes "list_all is_clustered_event es"
    and "consume_all env (es @ [End_of_partition_event rts]) st = Inr st'"
  shows "\<exists>cl. data st' = data st @ missing_header_items env st @ cl @ [End_of_partition]
             \<and> list_all is_clustered_item cl"
  using assms
proof (induction es arbitrary: st)
  case Nil
  then obtain stop where "consume_end_of_partition env rts st = Inr (st', stop)"
    by (auto simp: and_then_eq_Inr)
  then show ?case by (rule consume_end_of_partition_data)
next
  case (Cons e es)
  from Cons.prems obtain st1 where
    e: "consume env e st = Inr st1"
    and r: "consume_all env (es @ [End_of_partition_event rts]) st1 = Inr st'"
    and ce: "is_clustered_event e" and ces: "list_all is_clustered_event es"
    by (auto simp: and_then_eq_Inr)
  from consume_clustered_event_result [OF ce e] obtain cl1 where
    c1: "data st1 = data st @ missing_header_items env st @ cl1" "list_all is_clustered_item cl1"
    and f: "tombstone_written st1" "has_static_columns env \<longrightarrow> static_row_written st1"
    by blast
  from Cons.IH [OF ces r] obtain cl2 where
    c2: "data st' = data st1 @ missing_header_items env st1 @ cl2 @ [End_of_partition]"
      "list_all is_clustered_item cl2"
    by blast
  have "data st' = data st @ missing_header_items env st @ (cl1 @ cl2) @ [End_of_partition]
      \<and> list_all is_clustered_item (cl1 @ cl2)"
    using c1 c2 missing_header_items_complete [OF f] by simp
  then show ?case by (rule exI)
qed


lemma consume_new_partition_result:
  assumes "consume_new_partition env dk st = Inr st1"
  shows "data st1 = data st @ [Partition_key (dk_key dk)]
       \<and> \<not> tombstone_written st1 \<and> \<not> static_row_written st1"
  using assms
  by (auto simp: consume_new_partition_def Let_def write_data_def and_then_eq_Inr
        split: prod.splits)

lemma consume_tombstone_result:
  "data (consume_tombstone env t st) = data st @ [Deletion_time (to_deletion_time t)]
   \<and> tombstone_written (consume_tombstone env t st)
   \<and> static_row_written (consume_tombstone env t st) = static_row_written st"
  by (simp add: consume_tombstone_def write_data_def Let_def)

lemma clustered_events_supply_nothing:
  assumes "list_all is_clustered_event es"
  shows "supplied_tombstone es = empty_tombstone \<and> supplied_static_row es = []
       \<and> \<not> supplies_static_row es"
proof (cases es)
  case Nil
  then show ?thesis by simp
next
  case (Cons e es')
  with assms show ?thesis by (cases e) simp_all
qed

lemma partition_events_cases:
  assumes "partition_events es"
  obtains (tombstone_static) t sr es2 where
      "es = Partition_tombstone t # Static_row_event sr # es2" "list_all is_clustered_event es2"
    | (tombstone) t es2 where "es = Partition_tombstone t # es2" "list_all is_clustered_event es2"
    | (static) sr es2 where "es = Static_row_event sr # es2" "list_all is_clustered_event es2"
    | (clustered) "list_all is_clustered_event es"
proof (cases es)
  case Nil
  then show ?thesis using clustered by simp
next
  case (Cons e es1)
  show ?thesis
  proof (cases e)
    case (Partition_tombstone t)
    show ?thesis
    proof (cases es1)
      case Nil
      with Cons Partition_tombstone show ?thesis using tombstone by simp
    next
      case (Cons e2 es2)
      with \<open>es = e # es1\<close> Partition_tombstone assms show ?thesis
        using tombstone_static tombstone by (cases e2) simp_all
    qed
  next
    case (Static_row_event sr)
    with Cons assms show ?thesis using static by simp
  qed (use Cons assms clustered in simp_all)
qed

lemma partition_data:
  assumes pe: "partition_events es"
    and run: "consume_all env (New_partition dk # es @ [End_of_partition_event rts]) st = Inr st'"
  shows "\<exists>cl. data st' = data st @ Partition_key (dk_key dk) # header_items env es
                  @ cl @ [End_of_partition]
             \<and> list_all is_clustered_item cl"
proof -
  from run obtain st1 where
    np: "consume_new_partition env dk st = Inr st1"
    and r1: "consume_all env (es @ [End_of_partition_event rts]) st1 = Inr st'"
    by (auto simp: and_then_eq_Inr)
  note n = consume_new_partition_result [OF np]
  from pe show ?thesis
  proof (cases rule: partition_events_cases)
    case (tombstone_static t sr es2)
    let ?st2 = "consume_tombstone env t st1"
    from r1 tombstone_static obtain st3 where
      s: "consume_static_row env sr ?st2 = Inr st3"
      and r3: "consume_all env (es2 @ [End_of_partition_event rts]) st3 = Inr st'"
      by (auto simp: and_then_eq_Inr)
    from consume_static_row_result [OF s] have
      d3: "data st3 = data ?st2 @ [Static_row sr]" "tombstone_written st3" "static_row_written st3"
      by (auto simp: consume_tombstone_result)
    from clustered_events_data [OF tombstone_static(2) r3] obtain cl where
      cl: "data st' = data st3 @ missing_header_items env st3 @ cl @ [End_of_partition]"
        "list_all is_clustered_item cl"
      by blast
    have "data st' = data st @ Partition_key (dk_key dk) # header_items env es
                  @ cl @ [End_of_partition] \<and> list_all is_clustered_item cl"
      using cl d3 n tombstone_static(1)
      by (simp add: consume_tombstone_result missing_header_items_def header_items_def)
    then show ?thesis by (rule exI)
  next
    case (tombstone t es2)
    let ?st2 = "consume_tombstone env t st1"
    from r1 tombstone have
      r2: "consume_all env (es2 @ [End_of_partition_event rts]) ?st2 = Inr st'"
      by simp
    from clustered_events_data [OF tombstone(2) r2] obtain cl where
      cl: "data st' = data ?st2 @ missing_header_items env ?st2 @ cl @ [End_of_partition]"
        "list_all is_clustered_item cl"
      by blast
    have sup: "supplied_static_row es = [] \<and> \<not> supplies_static_row es"
    proof (cases es2)
      case Nil
      with tombstone(1) show ?thesis by simp
    next
      case (Cons e2 es3)
      with tombstone show ?thesis by (cases e2) simp_all
    qed
    have "data st' = data st @ Partition_key (dk_key dk) # header_items env es
                  @ cl @ [End_of_partition] \<and> list_all is_clustered_item cl"
      using cl n sup tombstone(1)
      by (simp add: consume_tombstone_result missing_header_items_def header_items_def)
    then show ?thesis by (rule exI)
  next
    case (static sr es2)
    from r1 static obtain st3 where
      s: "consume_static_row env sr st1 = Inr st3"
      and r3: "consume_all env (es2 @ [End_of_partition_event rts]) st3 = Inr st'"
      by (auto simp: and_then_eq_Inr)
    from consume_static_row_result [OF s] n have
      d3: "data st3 = data st1 @ [Deletion_time (to_deletion_time empty_tombstone), Static_row sr]"
        "tombstone_written st3" "static_row_written st3"
      by auto
    from clustered_events_data [OF static(2) r3] obtain cl where
      cl: "data st' = data st3 @ missing_header_items env st3 @ cl @ [End_of_partition]"
        "list_all is_clustered_item cl"
      by blast
    have "data st' = data st @ Partition_key (dk_key dk) # header_items env es
                  @ cl @ [End_of_partition] \<and> list_all is_clustered_item cl"
      using cl d3 n static(1)
      by (simp add: missing_header_items_def header_items_def)
    then show ?thesis by (rule exI)
  next
    case clustered
    from clustered_events_data [OF clustered r1] obtain cl where
      cl: "data st' = data st1 @ missing_header_items env st1 @ cl @ [End_of_partition]"
        "list_all is_clustered_item cl"
      by blast
    have "data st' = data st @ Partition_key (dk_key dk) # header_items env es
                  @ cl @ [End_of_partition] \<and> list_all is_clustered_item cl"
      using cl n clustered_events_supply_nothing [OF clustered]
      by (simp add: missing_header_items_def header_items_def)
    then show ?thesis by (rule exI)
  qed
qed

subsection \<open>The calls of a partition return\<close>

lemma maybe_add_pi_block_returns:
  assumes "writer_invariant st" and "first_clustering st \<noteq> None"
  shows "\<exists>st'. maybe_add_pi_block st = Inr st' \<and> writer_invariant st'
           \<and> end_open_marker st' = end_open_marker st"
  using assms
  by (auto simp: maybe_add_pi_block_def add_pi_block_def writer_invariant_def Let_def
        split: option.splits)

lemma write_clustered_returns:
  assumes "writer_invariant st" and "ci_kind info \<noteq> static_clustering_m"
  shows "\<exists>st'. write_clustered env info item st = Inr st' \<and> writer_invariant st'
           \<and> end_open_marker st' = end_open_marker st"
proof -
  let ?st1 = "maybe_set_pi_first_clustering info st"
  let ?st2 = "write_data env (item (data_writer_offset ?st1 - prev_row_start ?st1)) ?st1"
  let ?st3 = "?st2\<lparr>last_clustering := Some info, prev_row_start := data_writer_offset ?st1\<rparr>"
  have i: "writer_invariant ?st3"
    using assms
    by (auto simp: writer_invariant_def maybe_set_pi_first_clustering_def write_data_def Let_def
          split: option.splits)
  have f: "first_clustering ?st3 \<noteq> None"
    by (simp add: maybe_set_pi_first_clustering_def write_data_def Let_def)
  have e: "end_open_marker ?st3 = end_open_marker st"
    by (simp add: maybe_set_pi_first_clustering_def write_data_def Let_def)
  have w: "write_clustered env info item st = maybe_add_pi_block ?st3"
    by (simp add: write_clustered_def Let_def)
  from maybe_add_pi_block_returns [OF i f] e show ?thesis
    unfolding w by auto
qed

lemma consume_rt_marker_returns:
  assumes "writer_invariant st" and "rtm_kind m \<noteq> static_clustering_m"
  shows "\<exists>st'. consume_rt_marker env m st = Inr st' \<and> writer_invariant st'
           \<and> end_open_marker st' = end_open_marker st"
  using write_clustered_returns [OF assms(1), of "\<lparr>ci_clustering = rtm_clustering m, ci_kind = rtm_kind m\<rparr>"
      env "Rt_marker m"] assms(2)
  by (simp add: consume_rt_marker_def)

lemma writer_invariant_end_open_marker:
  assumes "writer_invariant st" and "\<forall>x. m = Some x \<longrightarrow> rtm_kind x \<noteq> static_clustering_m"
  shows "writer_invariant (st\<lparr>end_open_marker := m\<rparr>)"
  using assms by (simp add: writer_invariant_def)

lemma to_bound_kind_m_not_static: "to_bound_kind_m k \<noteq> static_clustering_m"
  by (cases k) simp_all

lemma flush_end_open_marker_returns:
  assumes "writer_invariant st" and "end_open_marker st = Some m"
  shows "\<exists>st'. flush_end_open_marker env st = Inr st' \<and> writer_invariant st'
           \<and> end_open_marker st' = None"
proof -
  from assms have k: "rtm_kind m \<noteq> static_clustering_m"
    by (simp add: writer_invariant_def)
  have i: "writer_invariant (st\<lparr>end_open_marker := None\<rparr>)"
    by (rule writer_invariant_end_open_marker [OF assms(1)]) simp
  from consume_rt_marker_returns [OF i k, of env] show ?thesis
    by (simp add: flush_end_open_marker_def assms(2))
qed

lemma write_rt_boundary_returns:
  assumes "writer_invariant st" and "end_open_marker st = Some m"
  shows "\<exists>st'. write_rt_boundary env rt st = Inr st' \<and> writer_invariant st'"
proof -
  have i: "writer_invariant (st\<lparr>end_open_marker := Some (get_rt_end rt)\<rparr>)"
    by (rule writer_invariant_end_open_marker [OF assms(1)])
      (simp add: get_rt_end_def to_bound_kind_m_not_static)
  have k: "rtm_kind \<lparr>rtm_clustering = rt_start rt, rtm_kind = boundary_kind rt, rtm_tomb = rtm_tomb m,
                 rtm_boundary_tomb = Some (rt_tomb rt)\<rparr> \<noteq> static_clustering_m"
    by (simp add: boundary_kind_def)
  from consume_rt_marker_returns [OF i k, of env] show ?thesis
    by (auto simp: write_rt_boundary_def assms(2) Let_def)
qed

lemma drain_step_returns:
  assumes "writer_invariant st"
  shows "\<exists>st'. drain_step env rt st = Inr st' \<and> writer_invariant st'"
proof -
  have start: "\<exists>st'. consume_rt_marker env (get_rt_start rt)
                 (st1\<lparr>end_open_marker := Some (get_rt_end rt)\<rparr>) = Inr st' \<and> writer_invariant st'"
    if "writer_invariant st1" for st1
  proof -
    have i: "writer_invariant (st1\<lparr>end_open_marker := Some (get_rt_end rt)\<rparr>)"
      by (rule writer_invariant_end_open_marker [OF that])
        (simp add: get_rt_end_def to_bound_kind_m_not_static)
    have k: "rtm_kind (get_rt_start rt) \<noteq> static_clustering_m"
      by (simp add: get_rt_start_def to_bound_kind_m_not_static)
    from consume_rt_marker_returns [OF i k, of env] show ?thesis
      by blast
  qed
  show ?thesis
  proof (cases "end_open_marker st")
    case None
    with start [OF assms] show ?thesis
      by (simp add: drain_step_def)
  next
    case (Some m)
    show ?thesis
    proof (cases "equal_compare env (rt_marker_position env m) (rt_position rt)")
      case True
      with write_rt_boundary_returns [OF assms Some, of env rt] Some show ?thesis
        by (auto simp: drain_step_def)
    next
      case ne: False
      show ?thesis
      proof (cases "less_compare env (rt_position rt) (rt_marker_position env m)")
        case True
        show ?thesis
        proof (cases "rtm_tomb m \<noteq> rt_tomb rt")
          case True
          with write_rt_boundary_returns [OF assms Some, of env rt] Some ne
            \<open>less_compare env (rt_position rt) (rt_marker_position env m)\<close>
          show ?thesis
            by (auto simp: drain_step_def)
        next
          case False
          have "writer_invariant (st\<lparr>end_open_marker := Some (get_rt_end rt)\<rparr>)"
            by (rule writer_invariant_end_open_marker [OF assms])
              (simp add: get_rt_end_def to_bound_kind_m_not_static)
          with False Some ne True show ?thesis
            by (simp add: drain_step_def)
        qed
      next
        case False
        from flush_end_open_marker_returns [OF assms Some, of env] obtain st1 where
          f: "flush_end_open_marker env st = Inr st1" and i: "writer_invariant st1"
          by blast
        from start [OF i] False ne Some f show ?thesis
          by (simp add: drain_step_def)
      qed
    qed
  qed
qed

lemma drain_loop_returns:
  "writer_invariant st \<Longrightarrow> \<exists>st'. drain_loop env rts st = Inr st' \<and> writer_invariant st'"
proof (induction rts arbitrary: st)
  case Nil
  then show ?case by simp
next
  case (Cons rt rts)
  from drain_step_returns [OF Cons.prems, of env rt] obtain st1 where
    "drain_step env rt st = Inr st1" "writer_invariant st1"
    by blast
  with Cons.IH [of st1] show ?case
    by simp
qed

lemma ensure_tombstone_is_written_invariant:
  "writer_invariant st \<Longrightarrow> writer_invariant (ensure_tombstone_is_written env st)"
  by (simp add: ensure_tombstone_is_written_def consume_tombstone_def write_data_def Let_def
        writer_invariant_def)

lemma consume_static_row_returns:
  assumes "writer_invariant st" and "is_compound env"
  shows "\<exists>st'. consume_static_row env sr st = Inr st' \<and> writer_invariant st'"
proof -
  define st0 where "st0 = ensure_tombstone_is_written env st"
  have "writer_invariant st0"
    unfolding st0_def by (rule ensure_tombstone_is_written_invariant [OF assms(1)])
  then show ?thesis
    using assms(2) unfolding consume_static_row_def st0_def [symmetric]
    by (auto simp: write_static_row_def write_data_def Let_def writer_invariant_def
          split: option.splits)
qed

lemma drain_tombstones_returns:
  assumes "writer_invariant st" and "has_static_columns env \<longrightarrow> is_compound env"
  shows "\<exists>st'. drain_tombstones env pos rts st = Inr st' \<and> writer_invariant st'
            \<and> (pos = None \<longrightarrow> end_open_marker st' = None)"
proof -
  let ?st0 = "ensure_tombstone_is_written env st"
  have i0: "writer_invariant ?st0"
    by (rule ensure_tombstone_is_written_invariant [OF assms(1)])
  have "\<exists>st1. ensure_static_row_is_written_if_needed env ?st0 = Inr st1 \<and> writer_invariant st1"
    using consume_static_row_returns [OF i0, of env "[]"] assms(2) i0
    by (simp add: ensure_static_row_is_written_if_needed_def)
  then obtain st1 where
    h: "ensure_static_row_is_written_if_needed env ?st0 = Inr st1" and i1: "writer_invariant st1"
    by blast
  from drain_loop_returns [OF i1, of env rts] obtain st2 where
    l: "drain_loop env rts st1 = Inr st2" and i2: "writer_invariant st2"
    by blast
  have d: "drain_tombstones env pos rts st =
      (case end_open_marker st2 of
                    Some m \<Rightarrow>
                      if (case pos of None \<Rightarrow> True
                          | Some p \<Rightarrow> less_compare env (rt_marker_position env m) p)
                      then flush_end_open_marker env st2
                      else Inr st2
                  | None \<Rightarrow> Inr st2)"
    by (simp add: drain_tombstones_def h l)
  show ?thesis
  proof (cases "end_open_marker st2")
    case None
    with i2 show ?thesis
      unfolding d by simp
  next
    case (Some m)
    from flush_end_open_marker_returns [OF i2 Some, of env] i2 Some show ?thesis
      unfolding d by (auto split: option.splits)
  qed
qed


lemma write_clustered_row_returns:
  assumes "writer_invariant st"
  shows "\<exists>st'. write_clustered_row env cr st = Inr st' \<and> writer_invariant st'"
proof -
  have i: "writer_invariant (st\<lparr>rows_count := rows_count st + 1\<rparr>)"
    using assms by (auto simp: writer_invariant_def split: option.splits)
  from write_clustered_returns [OF i, of "\<lparr>ci_clustering = cr_key cr, ci_kind = clustering_m\<rparr>"
      env "\<lambda>prev. Clustering_row cr prev"]
  show ?thesis
    by (auto simp: write_clustered_row_def)
qed

lemma consume_clustered_event_returns:
  assumes "writer_invariant st" and "has_static_columns env \<longrightarrow> is_compound env"
    and "is_clustered_event e"
  shows "\<exists>st'. consume env e st = Inr st' \<and> writer_invariant st'"
proof (cases e)
  case (Clustering_row_event cr rts)
  from drain_tombstones_returns [OF assms(1,2), of "Some (after_key (cr_key cr))" rts]
  obtain st1 where d: "drain_tombstones env (Some (after_key (cr_key cr))) rts st = Inr st1"
    and i: "writer_invariant st1"
    by blast
  from write_clustered_row_returns [OF i, of env cr] d show ?thesis
    by (simp add: Clustering_row_event)
next
  case (Range_tombstone_event rt rts)
  from drain_tombstones_returns [OF assms(1,2), of "Some (rt_position rt)" rts]
  show ?thesis
    by (auto simp: Range_tombstone_event)
qed (use assms(3) in simp_all)

lemma consume_clustered_events_return:
  assumes "has_static_columns env \<longrightarrow> is_compound env"
  shows "writer_invariant st \<Longrightarrow> list_all is_clustered_event es
     \<Longrightarrow> \<exists>st'. consume_all env es st = Inr st' \<and> writer_invariant st'"
proof (induction es arbitrary: st)
  case Nil
  then show ?case by simp
next
  case (Cons e es)
  from Cons.prems have "is_clustered_event e" "list_all is_clustered_event es"
    by simp_all
  from consume_clustered_event_returns [OF Cons.prems(1) assms this(1)] obtain st1 where
    "consume env e st = Inr st1" "writer_invariant st1"
    by blast
  with Cons.IH [OF this(2) \<open>list_all is_clustered_event es\<close>] show ?case
    by simp
qed

lemma write_pi_blocks_returns:
  "list_all (\<lambda>b. ci_kind (pib_first b) \<noteq> static_clustering_m
                    \<and> ci_kind (pib_last b) \<noteq> static_clustering_m) blocks
   \<Longrightarrow> \<exists>r. write_pi_blocks env blocks written offs = Inr r"
  by (induction blocks arbitrary: written offs)
    (simp_all add: write_pi_block_def write_clustering_prefix_def)

lemma write_index_promoted_returns:
  assumes "writer_invariant st"
  shows "\<exists>st'. write_index_promoted env st = Inr st' \<and> partition_key st' = partition_key st"
proof -
  from assms have "list_all (\<lambda>b. ci_kind (pib_first b) \<noteq> static_clustering_m
                    \<and> ci_kind (pib_last b) \<noteq> static_clustering_m) (promoted_index st)"
    by (simp add: writer_invariant_def)
  from write_pi_blocks_returns [OF this, of env "[]" "[]"] obtain blocks offs where
    "write_pi_blocks env (promoted_index st) [] [] = Inr (blocks, offs)"
    by (cases) auto
  then show ?thesis
    by (simp add: write_index_promoted_def write_promoted_index_def)
qed

lemma add_last_pi_block_returns:
  assumes "writer_invariant st"
  shows "\<exists>st'. add_last_pi_block st = Inr st' \<and> writer_invariant st'"
  using assms
  by (auto simp: add_last_pi_block_def add_pi_block_def writer_invariant_def
        split: option.splits)

lemma consume_end_of_partition_returns:
  assumes "writer_invariant st" and "has_static_columns env \<longrightarrow> is_compound env"
  shows "\<exists>st' stop. consume_end_of_partition env rts st = Inr (st', stop)"
proof -
  from drain_tombstones_returns [OF assms, of None rts] obtain st1 where
    d: "drain_tombstones env None rts st = Inr st1" and i1: "writer_invariant st1"
    by blast
  have "writer_invariant (write_data env End_of_partition st1)"
    using i1 by (auto simp: writer_invariant_def write_data_def split: option.splits)
  from add_last_pi_block_returns [OF this] obtain st2 where
    a: "add_last_pi_block (write_data env End_of_partition st1) = Inr st2"
    and i2: "writer_invariant st2"
    by blast
  from write_index_promoted_returns [OF i2, of env] obtain st3 where
    w: "write_index_promoted env st2 = Inr st3" and k: "partition_key st3 = partition_key st2"
    by blast
  from i2 k obtain key where "partition_key st3 = Some key"
    by (auto simp: writer_invariant_def)
  then show ?thesis
    by (simp add: consume_end_of_partition_def d a w Let_def)
qed

lemma consume_new_partition_returns:
  assumes "length (dk_key dk) < 65536" and "end_open_marker st = None"
  shows "\<exists>st'. consume_new_partition env dk st = Inr st' \<and> writer_invariant st'"
proof -
  have "unat (of_nat (length (dk_key dk)) :: 16 word) = length (dk_key dk)"
    using assms(1) by (simp add: unat_of_nat)
  then obtain p_key where p: "write_disk_string16 (dk_key dk) = Inr p_key"
    by (simp add: write_disk_string16_def)
  show ?thesis
    using assms(2)
    by (simp add: consume_new_partition_def p Let_def write_data_def writer_invariant_def
          split: prod.split)
qed


lemma consume_tombstone_invariant:
  "writer_invariant st \<Longrightarrow> writer_invariant (consume_tombstone env t st)"
  by (simp add: consume_tombstone_def write_data_def Let_def writer_invariant_def)

lemma consume_all_append:
  "consume_all env (xs @ ys) st = and_then (consume_all env xs st) (consume_all env ys)"
proof (induction xs arbitrary: st)
  case Nil
  show ?case by simp
next
  case (Cons x xs)
  show ?case
    by (cases "consume env x st") (simp_all add: Cons.IH)
qed

lemma partition_events_return:
  assumes pe: "partition_events es"
    and inv: "writer_invariant st"
    and compound: "has_static_columns env \<or> supplies_static_row es \<longrightarrow> is_compound env"
  shows "\<exists>st'. consume_all env es st = Inr st' \<and> writer_invariant st'"
proof -
  from compound have c: "has_static_columns env \<longrightarrow> is_compound env"
    by simp
  from pe show ?thesis
  proof (cases rule: partition_events_cases)
    case (tombstone_static t sr es2)
    with compound have "is_compound env"
      by simp
    from consume_static_row_returns
      [OF consume_tombstone_invariant [OF inv, where env = env and t = t] this, where sr = sr]
    obtain st1 where s: "consume_static_row env sr (consume_tombstone env t st) = Inr st1"
      and i: "writer_invariant st1"
      by blast
    from consume_clustered_events_return [OF c i tombstone_static(2)] s show ?thesis
      by (simp add: tombstone_static(1))
  next
    case (tombstone t es2)
    from consume_clustered_events_return
      [OF c consume_tombstone_invariant [OF inv, where env = env and t = t] tombstone(2)]
    show ?thesis
      by (simp add: tombstone(1))
  next
    case (static sr es2)
    with compound have "is_compound env"
      by simp
    from consume_static_row_returns [OF inv this, where sr = sr]
    obtain st1 where s: "consume_static_row env sr st = Inr st1" and i: "writer_invariant st1"
      by blast
    from consume_clustered_events_return [OF c i static(2)] s show ?thesis
      by (simp add: static(1))
  next
    case clustered
    from consume_clustered_events_return [OF c inv clustered] show ?thesis .
  qed
qed

lemma partition_returns:
  assumes pe: "partition_events es"
    and key: "length (dk_key dk) < 65536"
    and closed: "end_open_marker st = None"
    and compound: "has_static_columns env \<or> supplies_static_row es \<longrightarrow> is_compound env"
  shows "\<exists>st'. consume_all env (New_partition dk # es @ [End_of_partition_event rts]) st = Inr st'"
proof -
  from consume_new_partition_returns [OF key closed, where env = env] obtain st1 where
    n: "consume_new_partition env dk st = Inr st1" and i1: "writer_invariant st1"
    by blast
  from partition_events_return [OF pe i1 compound] obtain st2 where
    e: "consume_all env es st1 = Inr st2" and i2: "writer_invariant st2"
    by blast
  from compound have "has_static_columns env \<longrightarrow> is_compound env"
    by simp
  from consume_end_of_partition_returns [OF i2 this, where rts = rts] obtain st3 stop where
    "consume_end_of_partition env rts st2 = Inr (st3, stop)"
    by blast
  then show ?thesis
    by (simp add: n consume_all_append e)
qed

text \<open>C5. \<^verbatim>\<open>consume_end_of_partition\<close> returns from a state that satisfies the writer's
  invariant, under a schema that is compound if it has static columns. When it returns, the index
  file has grown by the size of the partition's promoted index as a vint and by the promoted
  index: with fewer than two blocks collected (counting the block that is closed at the end of the
  partition) the size written is zero and nothing follows; otherwise the size is the number of
  bytes of the serialized promoted index, which follows.\<close>

theorem consume_end_of_partition_promoted_index:
  "(writer_invariant st \<and> (has_static_columns env \<longrightarrow> is_compound env)
      \<longrightarrow> (\<exists>st' stop. consume_end_of_partition env rts st = Inr (st', stop)))
   \<and> (\<forall>st' stop. consume_end_of_partition env rts st = Inr (st', stop) \<longrightarrow>
         (\<exists>st1 st2.
             drain_tombstones env None rts st = Inr st1
           \<and> add_last_pi_block (write_data env End_of_partition st1) = Inr st2
           \<and> (length (promoted_index st2) < 2 \<longrightarrow> index st' = index st @ write_vint env 0)
           \<and> (2 \<le> length (promoted_index st2) \<longrightarrow>
                 (\<exists>pi. write_promoted_index env st2 = Inr pi
                       \<and> index st' = index st @ write_vint env (of_nat (length pi)) @ pi))))"
proof -
  have returns: "\<exists>st' stop. consume_end_of_partition env rts st = Inr (st', stop)"
    if "writer_invariant st \<and> (has_static_columns env \<longrightarrow> is_compound env)"
    using consume_end_of_partition_returns [of st env rts] that by blast
  have written: "\<exists>st1 st2.
             drain_tombstones env None rts st = Inr st1
           \<and> add_last_pi_block (write_data env End_of_partition st1) = Inr st2
           \<and> (length (promoted_index st2) < 2 \<longrightarrow> index st' = index st @ write_vint env 0)
           \<and> (2 \<le> length (promoted_index st2) \<longrightarrow>
                 (\<exists>pi. write_promoted_index env st2 = Inr pi
                       \<and> index st' = index st @ write_vint env (of_nat (length pi)) @ pi))"
    if run: "consume_end_of_partition env rts st = Inr (st', stop)" for st' stop
  proof -
    from run obtain st1 st2 st3 where
      d: "drain_tombstones env None rts st = Inr st1"
      and a: "add_last_pi_block (write_data env End_of_partition st1) = Inr st2"
      and w: "write_index_promoted env st2 = Inr st3"
      and r: "(case partition_key st3 of
                   None \<Rightarrow> Inl Out_of_bounds
                 | Some k \<Rightarrow>
                    (let st4 = st3\<lparr>partition_size := data_writer_offset st3 - start_offset st3\<rparr>;
                         st5 = st4\<lparr>start_offset := 0, rows_count := 0, partition_size := 0\<rparr>;
                         st6 = st5\<lparr>writer_first_key :=
                                     (if writer_first_key st5 = None then Some k
                                      else writer_first_key st5),
                                   writer_last_key := Some k, partition_key := Some []\<rparr>
                     in Inr (st6, \<not> get_data_offset env st6 < max_sstable_size env))) = Inr (st', stop)"
      unfolding consume_end_of_partition_def and_then_eq_Inr by blast
    from r have i3: "index st' = index st3"
      by (auto simp: Let_def split: option.splits)
    from drain_tombstones_result [OF d] have i1: "index st1 = index st"
      by simp
    from add_last_pi_block_result [OF a] have i2: "index st2 = index st1"
      by (simp add: write_data_def)
    have small: "index st3 = index st2 @ write_vint env 0" if "length (promoted_index st2) < 2"
      using w that by (auto simp: write_index_promoted_def)
    have big: "\<exists>pi. write_promoted_index env st2 = Inr pi
                     \<and> index st3 = index st2 @ write_vint env (of_nat (length pi)) @ pi"
      if "2 \<le> length (promoted_index st2)"
      using w that by (auto simp: write_index_promoted_def and_then_eq_Inr)
    from d a small big show ?thesis
      unfolding i3 i2 i1 by blast
  qed
  have r: "writer_invariant st \<and> (has_static_columns env \<longrightarrow> is_compound env)
      \<longrightarrow> (\<exists>st' stop. consume_end_of_partition env rts st = Inr (st', stop))"
    by (rule impI) (rule returns)
  have w: "\<forall>st' stop. consume_end_of_partition env rts st = Inr (st', stop) \<longrightarrow>
         (\<exists>st1 st2.
             drain_tombstones env None rts st = Inr st1
           \<and> add_last_pi_block (write_data env End_of_partition st1) = Inr st2
           \<and> (length (promoted_index st2) < 2 \<longrightarrow> index st' = index st @ write_vint env 0)
           \<and> (2 \<le> length (promoted_index st2) \<longrightarrow>
                 (\<exists>pi. write_promoted_index env st2 = Inr pi
                       \<and> index st' = index st @ write_vint env (of_nat (length pi)) @ pi)))"
    by (intro allI impI) (rule written)
  from r w show ?thesis
    by (intro conjI)
qed

theorem consume_end_of_partition_promoted_index_witness:
  "writer_invariant example_partition_end
   \<and> is_compound example_env
   \<and> (\<exists>st' stop. consume_end_of_partition example_env [] example_partition_end = Inr (st', stop))
   \<and> consume_end_of_partition example_env [] example_partition_end
       = Inr (example_partition_end_result, False)
   \<and> length (promoted_index example_partition_end_result) = 2
   \<and> length (index example_partition_end_result)
       = length (index example_partition_end) + length (write_vint example_env 80) + 80"
proof -
  have i: "writer_invariant example_partition_end"
    by (simp add: writer_invariant_def example_partition_end_def example_state_def)
  have c: "is_compound example_env"
    by (simp add: example_env_def)
  have h: "consume_end_of_partition example_env [] example_partition_end
     = Inr (example_partition_end_result, False)"
    by code_simp
  have l: "length (promoted_index example_partition_end_result) = 2"
    by (simp add: example_partition_end_result_def)
  have n: "length (index example_partition_end_result)
       = length (index example_partition_end) + length (write_vint example_env 80) + 80"
    by code_simp
  note t = consume_end_of_partition_promoted_index [of example_partition_end example_env "[]"]
  from t i c have "\<exists>st' stop. consume_end_of_partition example_env [] example_partition_end
      = Inr (st', stop)"
    by blast
  with i c h l n show ?thesis
    by (intro conjI)
qed

section \<open>Properties of the writer of the older formats\<close>

lemma components_writer_consume_tombstone_result:
  "cw_data (components_writer_consume_tombstone t st)
     = cw_data st @ [Kl_deletion_time (to_deletion_time t)]
   \<and> cw_tombstone_written (components_writer_consume_tombstone t st)
   \<and> cw_partition_key (components_writer_consume_tombstone t st) = cw_partition_key st"
  by (simp add: components_writer_consume_tombstone_def to_deletion_time_def cw_write_def Let_def)

lemma components_writer_ensure_written:
  "cw_tombstone_written st \<Longrightarrow> components_writer_ensure_tombstone_is_written st = st"
  by (simp add: components_writer_ensure_tombstone_is_written_def)

lemma components_writer_ensure_result:
  "cw_tombstone_written (components_writer_ensure_tombstone_is_written st)
   \<and> cw_partition_key (components_writer_ensure_tombstone_is_written st) = cw_partition_key st"
  using components_writer_consume_tombstone_result [of empty_tombstone st]
  by (simp add: components_writer_ensure_tombstone_is_written_def)

lemma components_writer_ensure_idem:
  "components_writer_ensure_tombstone_is_written (components_writer_ensure_tombstone_is_written st)
     = components_writer_ensure_tombstone_is_written st"
  by (rule components_writer_ensure_written) (simp add: components_writer_ensure_result)

lemma rows_written_refl: "cw_tombstone_written st \<Longrightarrow> rows_written st st"
  by (simp add: rows_written_def)

lemma rows_written_trans:
  assumes "rows_written st st1" and "rows_written st1 st2"
  shows "rows_written st st2"
proof -
  from assms obtain xs ys where "cw_data st1 = cw_data st @ xs"
    "\<not> list_ex is_kl_deletion_time_item xs" "cw_data st2 = cw_data st1 @ ys"
    "\<not> list_ex is_kl_deletion_time_item ys"
    unfolding rows_written_def by blast
  then have "cw_data st2 = cw_data st @ (xs @ ys) \<and> \<not> list_ex is_kl_deletion_time_item (xs @ ys)"
    by simp
  then have "\<exists>zs. cw_data st2 = cw_data st @ zs \<and> \<not> list_ex is_kl_deletion_time_item zs"
    by (rule exI)
  with assms show ?thesis
    by (simp add: rows_written_def)
qed

lemma atoms_rows_written:
  assumes "cw_tombstone_written st"
    and "and_then r (\<lambda>(b, pw). Inr ((cw_write (Kl_atoms b) st)\<lparr>cw_pi_write := pw\<rparr>)) = Inr st'"
  shows "rows_written st st'"
proof -
  from assms(2) obtain b pw where "st' = (cw_write (Kl_atoms b) st)\<lparr>cw_pi_write := pw\<rparr>"
    by (auto simp: and_then_eq_Inr)
  then have "cw_data st' = cw_data st @ [Kl_atoms b]" "cw_tombstone_written st' = cw_tombstone_written st"
    "cw_partition_key st' = cw_partition_key st"
    by (simp_all add: cw_write_def)
  with assms(1) show ?thesis
    by (simp add: rows_written_def)
qed

lemma sstable_write_static_row_rows_written:
  assumes "cw_tombstone_written st" and "sstable_write_static_row env r st = Inr st'"
  shows "rows_written st st'"
  using assms(2) atoms_rows_written [OF assms(1)]
  by (auto simp: sstable_write_static_row_def split: if_splits)

lemma sstable_write_clustered_row_rows_written:
  assumes "cw_tombstone_written st" and "sstable_write_clustered_row env cr st = Inr st'"
  shows "rows_written st st'"
  using assms(2) atoms_rows_written [OF assms(1)]
  by (auto simp: sstable_write_clustered_row_def)

lemma components_writer_write_tombstone_rows_written:
  assumes "cw_tombstone_written st" and "components_writer_write_tombstone env rt st = Inr st'"
  shows "rows_written st st'"
  using assms(2) atoms_rows_written [OF assms(1)]
  by (auto simp: components_writer_write_tombstone_def)

lemma components_writer_write_tombstones_rows_written:
  "cw_tombstone_written st \<Longrightarrow> components_writer_write_tombstones env rts st = Inr st'
     \<Longrightarrow> rows_written st st'"
proof (induction rts arbitrary: st)
  case Nil
  then show ?case by (simp add: rows_written_refl)
next
  case (Cons rt rts)
  from Cons.prems(2) obtain st1 where
    a: "components_writer_write_tombstone env rt st = Inr st1"
    and b: "components_writer_write_tombstones env rts st1 = Inr st'"
    by (auto simp: and_then_eq_Inr)
  from components_writer_write_tombstone_rows_written [OF Cons.prems(1) a]
  have r: "rows_written st st1" .
  then have "cw_tombstone_written st1"
    by (simp add: rows_written_def)
  from Cons.IH [OF this b] r show ?case
    using rows_written_trans by blast
qed

lemma components_writer_drain_tombstones_rows_written:
  assumes "cw_tombstone_written st" and "components_writer_drain_tombstones env rts st = Inr st'"
  shows "rows_written st st'"
  using assms components_writer_write_tombstones_rows_written [of st env rts st']
  by (simp add: components_writer_drain_tombstones_def components_writer_ensure_written)

lemma components_writer_consume_end_of_partition_rows_written:
  assumes "cw_tombstone_written st"
    and "components_writer_consume_end_of_partition env rts st = Inr (st', stop)"
  shows "\<exists>xs. cw_data st' = cw_data st @ xs @ [Kl_end_of_row]
            \<and> \<not> list_ex is_kl_deletion_time_item xs"
proof -
  from assms(2) obtain st1 where
    d: "components_writer_drain_tombstones env rts st = Inr st1"
    and r: "cw_data st' = cw_data st1 @ [Kl_end_of_row]"
    unfolding components_writer_consume_end_of_partition_def and_then_eq_Inr
    by (auto simp: Let_def cw_write_def split: option.splits)
  from components_writer_drain_tombstones_rows_written [OF assms(1) d] obtain xs where
    "cw_data st1 = cw_data st @ xs" "\<not> list_ex is_kl_deletion_time_item xs"
    unfolding rows_written_def by blast
  with r have "cw_data st' = cw_data st @ xs @ [Kl_end_of_row]
            \<and> \<not> list_ex is_kl_deletion_time_item xs"
    by simp
  then show ?thesis
    by (rule exI)
qed

lemma components_writer_consume_ensure:
  assumes "\<forall>dk. e \<noteq> New_partition dk" and "\<forall>t. e \<noteq> Partition_tombstone t"
  shows "components_writer_consume env e (components_writer_ensure_tombstone_is_written st)
       = components_writer_consume env e st"
  using assms
  by (cases e)
    (simp_all add: components_writer_consume_static_row_def
       components_writer_consume_clustering_row_def components_writer_drain_tombstones_def
       components_writer_consume_end_of_partition_def components_writer_ensure_idem)

lemma components_writer_consume_clustered_event:
  assumes "cw_tombstone_written st" and "is_clustered_event e"
    and "components_writer_consume env e st = Inr st'"
  shows "rows_written st st'"
proof (cases e)
  case (Clustering_row_event cr rts)
  with assms(3) obtain st1 where
    d: "components_writer_drain_tombstones env rts st = Inr st1"
    and w: "sstable_write_clustered_row env cr st1 = Inr st'"
    by (auto simp: components_writer_consume_clustering_row_def and_then_eq_Inr)
  from components_writer_drain_tombstones_rows_written [OF assms(1) d]
  have r: "rows_written st st1" .
  then have "cw_tombstone_written st1"
    by (simp add: rows_written_def)
  from sstable_write_clustered_row_rows_written [OF this w] r show ?thesis
    using rows_written_trans by blast
next
  case (Range_tombstone_event rt rts)
  with assms(3) have "components_writer_drain_tombstones env rts st = Inr st'"
    by simp
  from components_writer_drain_tombstones_rows_written [OF assms(1) this] show ?thesis .
qed (use assms(2) in simp_all)

lemma components_writer_consume_static_row_rows_written:
  assumes "cw_tombstone_written st" and "components_writer_consume_static_row env sr st = Inr st'"
  shows "rows_written st st'"
proof -
  from assms(2) have "sstable_write_static_row env sr st = Inr st'"
    by (simp add: components_writer_consume_static_row_def
          components_writer_ensure_written [OF assms(1)])
  from sstable_write_static_row_rows_written [OF assms(1) this] show ?thesis .
qed

lemma components_writer_clustered_events:
  "cw_tombstone_written st \<Longrightarrow> list_all is_clustered_event es
     \<Longrightarrow> components_writer_consume_all env es st = Inr st' \<Longrightarrow> rows_written st st'"
proof (induction es arbitrary: st)
  case Nil
  then show ?case by (simp add: rows_written_refl)
next
  case (Cons e es)
  from Cons.prems(3) obtain st1 where
    a: "components_writer_consume env e st = Inr st1"
    and b: "components_writer_consume_all env es st1 = Inr st'"
    by (auto simp: and_then_eq_Inr)
  from Cons.prems(2) have c: "is_clustered_event e" "list_all is_clustered_event es"
    by simp_all
  from components_writer_consume_clustered_event [OF Cons.prems(1) c(1) a]
  have r: "rows_written st st1" .
  then have "cw_tombstone_written st1"
    by (simp add: rows_written_def)
  from Cons.IH [OF this c(2) b] r show ?case
    using rows_written_trans by blast
qed

lemma components_writer_consume_all_append:
  "components_writer_consume_all env (xs @ ys) st
     = and_then (components_writer_consume_all env xs st) (components_writer_consume_all env ys)"
proof (induction xs arbitrary: st)
  case Nil
  show ?case by simp
next
  case (Cons x xs)
  show ?case
    by (cases "components_writer_consume env x st") (simp_all add: Cons.IH)
qed

lemma after_tombstone_cases:
  assumes "after_tombstone es"
  obtains (static) sr es2 where "es = Static_row_event sr # es2" "list_all is_clustered_event es2"
    | (clustered) "list_all is_clustered_event es"
proof (cases es)
  case Nil
  then show ?thesis using clustered by simp
next
  case (Cons e es1)
  show ?thesis
  proof (cases e)
    case (Static_row_event sr)
    with Cons assms show ?thesis using static by simp
  qed (use Cons assms clustered in simp_all)
qed

lemma components_writer_rows_of_partition:
  assumes w: "cw_tombstone_written st"
    and a: "after_tombstone es"
    and run: "components_writer_consume_all env (es @ [End_of_partition_event rts]) st = Inr st'"
  shows "\<exists>xs. cw_data st' = cw_data st @ xs \<and> \<not> list_ex is_kl_deletion_time_item xs"
proof -
  from run obtain st1 where
    b: "components_writer_consume_all env es st = Inr st1"
    and e: "components_writer_consume env (End_of_partition_event rts) st1 = Inr st'"
    by (auto simp: components_writer_consume_all_append and_then_eq_Inr)
  have r: "rows_written st st1"
    using a
  proof (cases rule: after_tombstone_cases)
    case (static sr es2)
    with b obtain st0 where
      s: "components_writer_consume_static_row env sr st = Inr st0"
      and c: "components_writer_consume_all env es2 st0 = Inr st1"
      by (auto simp: and_then_eq_Inr)
    from components_writer_consume_static_row_rows_written [OF w s]
    have r0: "rows_written st st0" .
    then have "cw_tombstone_written st0"
      by (simp add: rows_written_def)
    from components_writer_clustered_events [OF this static(2) c] r0 show ?thesis
      using rows_written_trans by blast
  next
    case clustered
    from components_writer_clustered_events [OF w clustered b] show ?thesis .
  qed
  then obtain xs where xs: "cw_data st1 = cw_data st @ xs" "\<not> list_ex is_kl_deletion_time_item xs"
    and w1: "cw_tombstone_written st1"
    unfolding rows_written_def by blast
  from e obtain stop where
    "components_writer_consume_end_of_partition env rts st1 = Inr (st', stop)"
    by (auto simp: and_then_eq_Inr)
  from components_writer_consume_end_of_partition_rows_written [OF w1 this] obtain ys where
    "cw_data st' = cw_data st1 @ ys @ [Kl_end_of_row]" "\<not> list_ex is_kl_deletion_time_item ys"
    by blast
  with xs have "cw_data st' = cw_data st @ (xs @ ys @ [Kl_end_of_row])
      \<and> \<not> list_ex is_kl_deletion_time_item (xs @ ys @ [Kl_end_of_row])"
    by simp
  then show ?thesis
    by (rule exI)
qed

lemma components_writer_consume_all_ensure:
  assumes "after_tombstone es"
  shows "components_writer_consume_all env (es @ [End_of_partition_event rts])
           (components_writer_ensure_tombstone_is_written st)
       = components_writer_consume_all env (es @ [End_of_partition_event rts]) st"
proof (cases es)
  case Nil
  have "components_writer_consume env (End_of_partition_event rts)
           (components_writer_ensure_tombstone_is_written st)
      = components_writer_consume env (End_of_partition_event rts) st"
    by (rule components_writer_consume_ensure) simp_all
  then show ?thesis
    by (simp only: Nil append_Nil components_writer_consume_all.simps)
next
  case (Cons e es1)
  with assms have "\<forall>dk. e \<noteq> New_partition dk" "\<forall>t. e \<noteq> Partition_tombstone t"
    by (cases e; simp)+
  then have "components_writer_consume env e (components_writer_ensure_tombstone_is_written st)
      = components_writer_consume env e st"
    by (rule components_writer_consume_ensure)
  then show ?thesis
    by (simp only: Cons append_Cons components_writer_consume_all.simps)
qed

lemma components_writer_consume_new_partition_result:
  assumes "components_writer_consume_new_partition env dk st = Inr st'"
  shows "cw_data st' = cw_data st @ [Kl_partition_key (dk_key dk)]
       \<and> \<not> cw_tombstone_written st' \<and> cw_partition_key st' = Some (dk_key dk)"
  using assms
  by (auto simp: components_writer_consume_new_partition_def and_then_eq_Inr Let_def cw_write_def
        split: prod.splits)

lemma components_writer_partition_data:
  assumes pe: "partition_events es"
    and run: "components_writer_consume_all env
                (New_partition dk # es @ [End_of_partition_event rts]) st = Inr st'"
  shows "\<exists>rest. cw_data st' = cw_data st @ Kl_partition_key (dk_key dk)
                    # Kl_deletion_time (to_deletion_time (supplied_tombstone es)) # rest
              \<and> \<not> list_ex is_kl_deletion_time_item rest"
proof -
  from run obtain st1 where
    np: "components_writer_consume_new_partition env dk st = Inr st1"
    and r1: "components_writer_consume_all env (es @ [End_of_partition_event rts]) st1 = Inr st'"
    by (auto simp: and_then_eq_Inr)
  note n = components_writer_consume_new_partition_result [OF np]
  have tail: "\<exists>rest. cw_data st' = cw_data st @ Kl_partition_key (dk_key dk)
                    # Kl_deletion_time (to_deletion_time t) # rest
              \<and> \<not> list_ex is_kl_deletion_time_item rest"
    if a: "after_tombstone body"
      and r: "components_writer_consume_all env (body @ [End_of_partition_event rts])
                (components_writer_consume_tombstone t st1) = Inr st'"
    for t body
  proof -
    note c = components_writer_consume_tombstone_result [of t st1]
    from c have w: "cw_tombstone_written (components_writer_consume_tombstone t st1)"
      by simp
    from components_writer_rows_of_partition [OF w a r] obtain xs where
      "cw_data st' = cw_data (components_writer_consume_tombstone t st1) @ xs"
      "\<not> list_ex is_kl_deletion_time_item xs"
      by blast
    with c n have "cw_data st' = cw_data st @ Kl_partition_key (dk_key dk)
                    # Kl_deletion_time (to_deletion_time t) # xs
              \<and> \<not> list_ex is_kl_deletion_time_item xs"
      by simp
    then show ?thesis
      by (rule exI)
  qed
  show ?thesis
  proof (cases "\<exists>t body. es = Partition_tombstone t # body")
    case True
    then obtain t body where es: "es = Partition_tombstone t # body"
      by blast
    with pe have a: "after_tombstone body"
      by simp
    from r1 have "components_writer_consume_all env (body @ [End_of_partition_event rts])
                (components_writer_consume_tombstone t st1) = Inr st'"
      by (simp add: es)
    from tail [OF a this] show ?thesis
      by (simp add: es)
  next
    case False
    then have st: "supplied_tombstone es = empty_tombstone"
      by (cases es rule: supplied_tombstone.cases) simp_all
    from False pe have a: "after_tombstone es"
      by (cases es rule: partition_events.cases) simp_all
    from n have "components_writer_ensure_tombstone_is_written st1
        = components_writer_consume_tombstone empty_tombstone st1"
      by (simp add: components_writer_ensure_tombstone_is_written_def)
    with r1 components_writer_consume_all_ensure [OF a, of env rts st1]
    have "components_writer_consume_all env (es @ [End_of_partition_event rts])
                (components_writer_consume_tombstone empty_tombstone st1) = Inr st'"
      by simp
    from tail [OF a this] show ?thesis
      by (simp add: st)
  qed
qed


lemma components_writer_write_tombstones_return:
  assumes "row_writers_return env"
  shows "\<exists>st'. components_writer_write_tombstones env rts st = Inr st'"
proof (induction rts arbitrary: st)
  case Nil
  show ?case by simp
next
  case (Cons rt rts)
  from assms obtain x where
    "write_range_tombstone_atoms env rt (cw_out_offset st) (cw_pi_write st) = Inr x"
    unfolding row_writers_return_def by blast
  then obtain st1 where "components_writer_write_tombstone env rt st = Inr st1"
    by (cases x) (simp add: components_writer_write_tombstone_def)
  with Cons.IH [of st1] show ?case
    by simp
qed

lemma components_writer_drain_tombstones_return:
  assumes "row_writers_return env"
  shows "\<exists>st'. components_writer_drain_tombstones env rts st = Inr st'"
  unfolding components_writer_drain_tombstones_def
  by (rule components_writer_write_tombstones_return [OF assms])

lemma sstable_write_clustered_row_return:
  assumes "row_writers_return env"
  shows "\<exists>st'. sstable_write_clustered_row env cr st = Inr st'"
proof -
  from assms obtain x where
    "write_clustered_row_cells env cr (cw_out_offset st) (cw_pi_write st) = Inr x"
    unfolding row_writers_return_def by blast
  then show ?thesis
    by (cases x) (simp add: sstable_write_clustered_row_def)
qed

lemma components_writer_consume_static_row_return:
  assumes "row_writers_return env" and "cw_is_compound env"
  shows "\<exists>st'. components_writer_consume_static_row env sr st = Inr st'"
proof -
  let ?st = "components_writer_ensure_tombstone_is_written st"
  from assms(1) obtain x where
    "write_static_row_cells env sr (cw_out_offset ?st) (cw_pi_write ?st) = Inr x"
    unfolding row_writers_return_def by blast
  then show ?thesis
    using assms(2)
    by (cases x) (simp add: components_writer_consume_static_row_def sstable_write_static_row_def)
qed

lemma components_writer_clustered_events_return:
  assumes "row_writers_return env"
  shows "list_all is_clustered_event es
     \<Longrightarrow> \<exists>st'. components_writer_consume_all env es st = Inr st'"
proof (induction es arbitrary: st)
  case Nil
  show ?case by simp
next
  case (Cons e es)
  from Cons.prems have c: "is_clustered_event e" "list_all is_clustered_event es"
    by simp_all
  have "\<exists>st1. components_writer_consume env e st = Inr st1"
  proof (cases e)
    case (Clustering_row_event cr rts)
    from components_writer_drain_tombstones_return [OF assms, of rts st] obtain st0 where
      "components_writer_drain_tombstones env rts st = Inr st0"
      by blast
    with sstable_write_clustered_row_return [OF assms, of cr st0] show ?thesis
      by (simp add: Clustering_row_event components_writer_consume_clustering_row_def)
  next
    case (Range_tombstone_event rt rts)
    from components_writer_drain_tombstones_return [OF assms, of rts st] show ?thesis
      by (simp add: Range_tombstone_event)
  qed (use c(1) in simp_all)
  then obtain st1 where "components_writer_consume env e st = Inr st1"
    by blast
  with Cons.IH [OF c(2), of st1] show ?case
    by simp
qed

lemma components_writer_consume_end_of_partition_return:
  assumes rw: "row_writers_return env"
    and w: "cw_tombstone_written st"
    and k: "cw_partition_key st \<noteq> None"
  shows "\<exists>st' stop. components_writer_consume_end_of_partition env rts st = Inr (st', stop)"
proof -
  from components_writer_drain_tombstones_return [OF rw, of rts st] obtain st1 where
    d: "components_writer_drain_tombstones env rts st = Inr st1"
    by blast
  from components_writer_drain_tombstones_rows_written [OF w d] k obtain key where
    "cw_partition_key st1 = Some key"
    by (auto simp: rows_written_def)
  then show ?thesis
    by (simp add: components_writer_consume_end_of_partition_def d Let_def cw_write_def)
qed

lemma components_writer_rows_of_partition_return:
  assumes rw: "row_writers_return env"
    and w: "cw_tombstone_written st"
    and k: "cw_partition_key st \<noteq> None"
    and a: "after_tombstone es"
    and c: "(\<exists>sr es2. es = Static_row_event sr # es2) \<longrightarrow> cw_is_compound env"
  shows "\<exists>st'. components_writer_consume_all env (es @ [End_of_partition_event rts]) st = Inr st'"
proof -
  have "\<exists>st1. components_writer_consume_all env es st = Inr st1"
    using a
  proof (cases rule: after_tombstone_cases)
    case (static sr es2)
    with c have "cw_is_compound env"
      by simp
    from components_writer_consume_static_row_return [OF rw this, of sr st] obtain st0 where
      "components_writer_consume_static_row env sr st = Inr st0"
      by blast
    with components_writer_clustered_events_return [OF rw static(2), of st0] show ?thesis
      by (simp add: static(1))
  next
    case clustered
    from components_writer_clustered_events_return [OF rw clustered] show ?thesis .
  qed
  then obtain st1 where b: "components_writer_consume_all env es st = Inr st1"
    by blast
  have r: "rows_written st st1"
    using a
  proof (cases rule: after_tombstone_cases)
    case (static sr es2)
    with b obtain st0 where
      s: "components_writer_consume_static_row env sr st = Inr st0"
      and cl: "components_writer_consume_all env es2 st0 = Inr st1"
      by (auto simp: and_then_eq_Inr)
    from components_writer_consume_static_row_rows_written [OF w s]
    have r0: "rows_written st st0" .
    then have "cw_tombstone_written st0"
      by (simp add: rows_written_def)
    from components_writer_clustered_events [OF this static(2) cl] r0 show ?thesis
      using rows_written_trans by blast
  next
    case clustered
    from components_writer_clustered_events [OF w clustered b] show ?thesis .
  qed
  with k have "cw_tombstone_written st1" "cw_partition_key st1 \<noteq> None"
    by (simp_all add: rows_written_def)
  from components_writer_consume_end_of_partition_return [OF rw this, of rts] obtain st' stop where
    "components_writer_consume_end_of_partition env rts st1 = Inr (st', stop)"
    by blast
  then show ?thesis
    by (simp add: components_writer_consume_all_append b)
qed

lemma components_writer_consume_new_partition_return:
  assumes "length (dk_key dk) < 65536"
  shows "\<exists>st'. components_writer_consume_new_partition env dk st = Inr st'"
proof -
  have "unat (of_nat (length (dk_key dk)) :: 16 word) = length (dk_key dk)"
    using assms by (simp add: unat_of_nat)
  then obtain p_key where p: "write_disk_string16 (dk_key dk) = Inr p_key"
    by (simp add: write_disk_string16_def)
  show ?thesis
    by (simp add: components_writer_consume_new_partition_def write_index_header_def p Let_def
          split: prod.split)
qed

lemma components_writer_partition_returns:
  assumes pe: "partition_events es"
    and key: "length (dk_key dk) < 65536"
    and rw: "row_writers_return env"
    and c: "supplies_static_row es \<longrightarrow> cw_is_compound env"
  shows "\<exists>st'. components_writer_consume_all env
                (New_partition dk # es @ [End_of_partition_event rts]) st = Inr st'"
proof -
  from components_writer_consume_new_partition_return [OF key, of env st] obtain st1 where
    np: "components_writer_consume_new_partition env dk st = Inr st1"
    by blast
  note n = components_writer_consume_new_partition_result [OF np]
  have tail: "\<exists>st'. components_writer_consume_all env (body @ [End_of_partition_event rts])
                (components_writer_consume_tombstone t st1) = Inr st'"
    if "after_tombstone body" "(\<exists>sr es2. body = Static_row_event sr # es2) \<longrightarrow> cw_is_compound env"
    for t body
  proof -
    note r = components_writer_consume_tombstone_result [of t st1]
    from r have w: "cw_tombstone_written (components_writer_consume_tombstone t st1)"
      by simp
    from r n have k: "cw_partition_key (components_writer_consume_tombstone t st1) \<noteq> None"
      by simp
    from components_writer_rows_of_partition_return [OF rw w k that] show ?thesis .
  qed
  show ?thesis
  proof (cases "\<exists>t body. es = Partition_tombstone t # body")
    case True
    then obtain t body where es: "es = Partition_tombstone t # body"
      by blast
    with pe have a: "after_tombstone body"
      by simp
    from c es have "(\<exists>sr es2. body = Static_row_event sr # es2) \<longrightarrow> cw_is_compound env"
      by auto
    from tail [OF a this, of t] show ?thesis
      by (simp add: np es)
  next
    case False
    from False pe have a: "after_tombstone es"
      by (cases es rule: partition_events.cases) simp_all
    from c have c': "(\<exists>sr es2. es = Static_row_event sr # es2) \<longrightarrow> cw_is_compound env"
      by auto
    from n have "components_writer_ensure_tombstone_is_written st1
        = components_writer_consume_tombstone empty_tombstone st1"
      by (simp add: components_writer_ensure_tombstone_is_written_def)
    with tail [OF a c', of empty_tombstone] components_writer_consume_all_ensure [OF a, of env rts st1]
    show ?thesis
      by (simp add: np)
  qed
qed

section \<open>The partition header\<close>

text \<open>C9. For the events of one partition in the order of the data model (at most one
  partition tombstone, first), in both writers. The run of the \<^verbatim>\<open>mc\<close> writer returns when the
  key's length fits 16 bits, no range tombstone is open at the start and the schema is compound if
  a static row is to be written; the run of the writer of the older formats returns when the
  key's length fits 16 bits, the row writers of the sstable object return and the schema is
  compound if a static row is supplied. A run of either that returns has written, right after the
  partition key, the deletion time of the supplied tombstone, and no other deletion time in the
  partition; for a tombstone that is not set, or none supplied, it holds the values of a live
  partition, \<open>2^31 - 1\<close> and \<open>-2^63\<close>.\<close>

theorem partition_deletion_time:
  assumes "partition_events es"
  shows "(length (dk_key dk) < 65536 \<and> end_open_marker st = None
            \<and> (has_static_columns env \<or> supplies_static_row es \<longrightarrow> is_compound env)
          \<longrightarrow> (\<exists>st'. consume_all env (New_partition dk # es @ [End_of_partition_event rts]) st
                      = Inr st'))
       \<and> (\<forall>st'. consume_all env (New_partition dk # es @ [End_of_partition_event rts]) st = Inr st'
            \<longrightarrow> (\<exists>rest. data st' = data st @ Partition_key (dk_key dk)
                            # Deletion_time (to_deletion_time (supplied_tombstone es)) # rest
                        \<and> \<not> list_ex is_deletion_time_item rest))
       \<and> (length (dk_key dk) < 65536 \<and> row_writers_return cenv
            \<and> (supplies_static_row es \<longrightarrow> cw_is_compound cenv)
          \<longrightarrow> (\<exists>cw'. components_writer_consume_all cenv
                        (New_partition dk # es @ [End_of_partition_event rts]) cw = Inr cw'))
       \<and> (\<forall>cw'. components_writer_consume_all cenv
                    (New_partition dk # es @ [End_of_partition_event rts]) cw = Inr cw'
            \<longrightarrow> (\<exists>rest. cw_data cw' = cw_data cw @ Kl_partition_key (dk_key dk)
                            # Kl_deletion_time (to_deletion_time (supplied_tombstone es)) # rest
                        \<and> \<not> list_ex is_kl_deletion_time_item rest))
       \<and> (\<not> tombstone_set (supplied_tombstone es) \<longrightarrow>
             sint (local_deletion_time (to_deletion_time (supplied_tombstone es))) = 2 ^ 31 - 1
           \<and> sint (marked_for_delete_at (to_deletion_time (supplied_tombstone es))) = - (2 ^ 63))
       \<and> cw_data (components_writer_consume_tombstone t cw)
           = cw_data cw @ [Kl_deletion_time (to_deletion_time t)]"
proof -
  have returns: "\<exists>st'. consume_all env (New_partition dk # es @ [End_of_partition_event rts]) st
                      = Inr st'"
    if "length (dk_key dk) < 65536 \<and> end_open_marker st = None
            \<and> (has_static_columns env \<or> supplies_static_row es \<longrightarrow> is_compound env)"
    using partition_returns [OF assms, of dk st env rts] that by simp
  have k: "cw_data (components_writer_consume_tombstone t cw)
                  = cw_data cw @ [Kl_deletion_time (to_deletion_time t)]"
    by (simp add: components_writer_consume_tombstone_result)
  have s: "\<not> tombstone_set (supplied_tombstone es) \<longrightarrow>
        sint (local_deletion_time (to_deletion_time (supplied_tombstone es))) = 2 ^ 31 - 1
      \<and> sint (marked_for_delete_at (to_deletion_time (supplied_tombstone es))) = - (2 ^ 63)"
    by (simp add: to_deletion_time_def)
  have written: "\<exists>rest. data st' = data st @ Partition_key (dk_key dk)
                            # Deletion_time (to_deletion_time (supplied_tombstone es)) # rest
                        \<and> \<not> list_ex is_deletion_time_item rest"
    if run: "consume_all env (New_partition dk # es @ [End_of_partition_event rts]) st = Inr st'"
    for st'
  proof -
    from partition_data [OF assms run] obtain cl where
      d: "data st' = data st @ Partition_key (dk_key dk) # header_items env es
                    @ cl @ [End_of_partition]"
      and cl: "list_all is_clustered_item cl"
      by blast
    let ?static = "if has_static_columns env \<or> supplies_static_row es
          then [Static_row (supplied_static_row es)] else []"
    let ?rest = "?static @ cl @ [End_of_partition]"
    have no_dt: "\<not> is_deletion_time_item it" if "is_clustered_item it" for it
      using that by (cases it) simp_all
    have "\<not> list_ex is_deletion_time_item cl"
      using cl no_dt by (auto simp: list_ex_iff list_all_iff)
    then have r: "\<not> list_ex is_deletion_time_item ?rest"
      by simp
    have "data st' = data st @ Partition_key (dk_key dk)
                      # Deletion_time (to_deletion_time (supplied_tombstone es)) # ?rest"
      using d by (simp add: header_items_def)
    with r show ?thesis
      by (intro exI [of _ ?rest] conjI)
  qed
  have r: "length (dk_key dk) < 65536 \<and> end_open_marker st = None
            \<and> (has_static_columns env \<or> supplies_static_row es \<longrightarrow> is_compound env)
          \<longrightarrow> (\<exists>st'. consume_all env (New_partition dk # es @ [End_of_partition_event rts]) st
                      = Inr st')"
    by (rule impI) (rule returns)
  have w: "\<forall>st'. consume_all env (New_partition dk # es @ [End_of_partition_event rts]) st = Inr st'
            \<longrightarrow> (\<exists>rest. data st' = data st @ Partition_key (dk_key dk)
                            # Deletion_time (to_deletion_time (supplied_tombstone es)) # rest
                        \<and> \<not> list_ex is_deletion_time_item rest)"
    by (intro allI impI) (rule written)
  have cr: "length (dk_key dk) < 65536 \<and> row_writers_return cenv
            \<and> (supplies_static_row es \<longrightarrow> cw_is_compound cenv)
          \<longrightarrow> (\<exists>cw'. components_writer_consume_all cenv
                        (New_partition dk # es @ [End_of_partition_event rts]) cw = Inr cw')"
    using components_writer_partition_returns [OF assms, of dk cenv rts cw] by simp
  have cw: "\<forall>cw'. components_writer_consume_all cenv
                    (New_partition dk # es @ [End_of_partition_event rts]) cw = Inr cw'
            \<longrightarrow> (\<exists>rest. cw_data cw' = cw_data cw @ Kl_partition_key (dk_key dk)
                            # Kl_deletion_time (to_deletion_time (supplied_tombstone es)) # rest
                        \<and> \<not> list_ex is_kl_deletion_time_item rest)"
    by (intro allI impI) (rule components_writer_partition_data [OF assms])
  from r w cr cw s k show ?thesis
    by (intro conjI)
qed

theorem partition_deletion_time_witness:
  "partition_events example_events_b
   \<and> length (dk_key \<lparr>dk_token = [7], dk_key = [1]\<rparr>) < 65536
   \<and> end_open_marker example_state = None
   \<and> is_compound example_env
   \<and> row_writers_return example_cw_env
   \<and> cw_is_compound example_cw_env
   \<and> (\<exists>st'. consume_all example_env
        (New_partition \<lparr>dk_token = [7], dk_key = [1]\<rparr> # example_events_b
           @ [End_of_partition_event []]) example_state = Inr st')
   \<and> consume_all example_env
        (New_partition \<lparr>dk_token = [7], dk_key = [1]\<rparr> # example_events_b
           @ [End_of_partition_event []]) example_state
      = Inr example_result_b
   \<and> (\<exists>rest. data example_result_b
                = data example_state @ Partition_key [1]
                    # Deletion_time (to_deletion_time \<lparr>timestamp = 10, deletion_time = 100\<rparr>)
                    # rest
              \<and> \<not> list_ex is_deletion_time_item rest)
   \<and> (\<exists>cw'. components_writer_consume_all example_cw_env
        (New_partition \<lparr>dk_token = [7], dk_key = [1]\<rparr> # example_events_b
           @ [End_of_partition_event []]) example_cw_state = Inr cw')
   \<and> components_writer_consume_all example_cw_env
        (New_partition \<lparr>dk_token = [7], dk_key = [1]\<rparr> # example_events_b
           @ [End_of_partition_event []]) example_cw_state
      = Inr example_cw_result_b
   \<and> (\<exists>rest. cw_data example_cw_result_b
                = cw_data example_cw_state @ Kl_partition_key [1]
                    # Kl_deletion_time (to_deletion_time \<lparr>timestamp = 10, deletion_time = 100\<rparr>)
                    # rest
              \<and> \<not> list_ex is_kl_deletion_time_item rest)
   \<and> partition_events example_events_a
   \<and> \<not> tombstone_set (supplied_tombstone example_events_a)
   \<and> consume_all example_env
        (New_partition \<lparr>dk_token = [7], dk_key = [1]\<rparr> # example_events_a
           @ [End_of_partition_event []]) example_state
      = Inr example_result_a
   \<and> (\<exists>d rest. data example_result_a
                = data example_state @ Partition_key [1] # Deletion_time d # rest
              \<and> sint (local_deletion_time d) = 2 ^ 31 - 1
              \<and> sint (marked_for_delete_at d) = - (2 ^ 63)
              \<and> \<not> list_ex is_deletion_time_item rest)
   \<and> components_writer_consume_all example_cw_env
        (New_partition \<lparr>dk_token = [7], dk_key = [1]\<rparr> # example_events_a
           @ [End_of_partition_event []]) example_cw_state
      = Inr example_cw_result_a
   \<and> (\<exists>d rest. cw_data example_cw_result_a
                = cw_data example_cw_state @ Kl_partition_key [1] # Kl_deletion_time d # rest
              \<and> sint (local_deletion_time d) = 2 ^ 31 - 1
              \<and> sint (marked_for_delete_at d) = - (2 ^ 63)
              \<and> \<not> list_ex is_kl_deletion_time_item rest)"
proof -
  let ?dk = "\<lparr>dk_token = [7], dk_key = [1]\<rparr>"
  have p: "partition_events example_events_b"
    by (simp add: example_events_b_def)
  have k: "length (dk_key ?dk) < 65536"
    by simp
  have o: "end_open_marker example_state = None"
    by (simp add: example_state_def)
  have c: "is_compound example_env"
    by (simp add: example_env_def)
  have rw: "row_writers_return example_cw_env"
    by (simp add: row_writers_return_def example_cw_env_def)
  have cc: "cw_is_compound example_cw_env"
    by (simp add: example_cw_env_def)
  have h: "consume_all example_env
        (New_partition ?dk # example_events_b @ [End_of_partition_event []]) example_state
      = Inr example_result_b"
    by code_simp
  have hc: "components_writer_consume_all example_cw_env
        (New_partition ?dk # example_events_b @ [End_of_partition_event []]) example_cw_state
      = Inr example_cw_result_b"
    by code_simp
  have t: "supplied_tombstone example_events_b = \<lparr>timestamp = 10, deletion_time = 100\<rparr>"
    by (simp add: example_events_b_def)
  note tb = partition_deletion_time [OF p, of ?dk example_state example_env "[]"
      example_cw_env example_cw_state]
  from tb [THEN conjunct1] k o c have r: "\<exists>st'. consume_all example_env
        (New_partition ?dk # example_events_b @ [End_of_partition_event []]) example_state
      = Inr st'"
    by simp
  from tb [THEN conjunct2, THEN conjunct1] h have b: "\<exists>rest. data example_result_b
                = data example_state @ Partition_key [1]
                    # Deletion_time (to_deletion_time \<lparr>timestamp = 10, deletion_time = 100\<rparr>)
                    # rest
              \<and> \<not> list_ex is_deletion_time_item rest"
    unfolding t by simp
  from tb [THEN conjunct2, THEN conjunct2, THEN conjunct1] k rw cc
  have rc: "\<exists>cw'. components_writer_consume_all example_cw_env
        (New_partition ?dk # example_events_b @ [End_of_partition_event []]) example_cw_state
      = Inr cw'"
    by simp
  from tb [THEN conjunct2, THEN conjunct2, THEN conjunct2, THEN conjunct1] hc
  have bc: "\<exists>rest. cw_data example_cw_result_b
                = cw_data example_cw_state @ Kl_partition_key [1]
                    # Kl_deletion_time (to_deletion_time \<lparr>timestamp = 10, deletion_time = 100\<rparr>)
                    # rest
              \<and> \<not> list_ex is_kl_deletion_time_item rest"
    unfolding t by simp
  have pa: "partition_events example_events_a"
    by (simp add: example_events_a_def)
  have na: "\<not> tombstone_set (supplied_tombstone example_events_a)"
    by (simp add: example_events_a_def tombstone_set_def empty_tombstone_def)
  have ha: "consume_all example_env
        (New_partition ?dk # example_events_a @ [End_of_partition_event []]) example_state
      = Inr example_result_a"
    by code_simp
  have hca: "components_writer_consume_all example_cw_env
        (New_partition ?dk # example_events_a @ [End_of_partition_event []]) example_cw_state
      = Inr example_cw_result_a"
    by code_simp
  note ta = partition_deletion_time [OF pa, of ?dk example_state example_env "[]"
      example_cw_env example_cw_state]
  from ta na have sv:
    "sint (local_deletion_time (to_deletion_time (supplied_tombstone example_events_a)))
       = 2 ^ 31 - 1"
    "sint (marked_for_delete_at (to_deletion_time (supplied_tombstone example_events_a)))
       = - (2 ^ 63)"
    by simp_all
  from ta [THEN conjunct2, THEN conjunct1] ha obtain rest where
    "data example_result_a
       = data example_state @ Partition_key [1]
           # Deletion_time (to_deletion_time (supplied_tombstone example_events_a)) # rest"
    "\<not> list_ex is_deletion_time_item rest"
    by auto
  with sv have a: "\<exists>d rest. data example_result_a
                = data example_state @ Partition_key [1] # Deletion_time d # rest
              \<and> sint (local_deletion_time d) = 2 ^ 31 - 1
              \<and> sint (marked_for_delete_at d) = - (2 ^ 63)
              \<and> \<not> list_ex is_deletion_time_item rest"
    by blast
  from ta [THEN conjunct2, THEN conjunct2, THEN conjunct2, THEN conjunct1] hca obtain rest where
    "cw_data example_cw_result_a
       = cw_data example_cw_state @ Kl_partition_key [1]
           # Kl_deletion_time (to_deletion_time (supplied_tombstone example_events_a)) # rest"
    "\<not> list_ex is_kl_deletion_time_item rest"
    by auto
  with sv have ac: "\<exists>d rest. cw_data example_cw_result_a
                = cw_data example_cw_state @ Kl_partition_key [1] # Kl_deletion_time d # rest
              \<and> sint (local_deletion_time d) = 2 ^ 31 - 1
              \<and> sint (marked_for_delete_at d) = - (2 ^ 63)
              \<and> \<not> list_ex is_kl_deletion_time_item rest"
    by blast
  from p k o c rw cc r h b rc hc bc pa na ha a hca ac show ?thesis
    by (intro conjI)
qed

text \<open>C10. Under a schema with static columns, for the events of one partition in the order
  of the data model, the run of the writer returns when the key's length fits 16 bits, no range
  tombstone is open at the start and the schema is compound. A run that returns has written a
  static row right after the partition key and the deletion time, before every clustering row
  and range-tombstone marker of the partition: the supplied one, or an empty one when the events
  supply none.\<close>

theorem partition_static_row:
  assumes "has_static_columns env"
    and "partition_events es"
  shows "(length (dk_key dk) < 65536 \<and> end_open_marker st = None \<and> is_compound env
          \<longrightarrow> (\<exists>st'. consume_all env (New_partition dk # es @ [End_of_partition_event rts]) st
                      = Inr st'))
       \<and> (\<forall>st'. consume_all env (New_partition dk # es @ [End_of_partition_event rts]) st = Inr st'
            \<longrightarrow> (\<exists>d cl. data st' = data st @ [Partition_key (dk_key dk), Deletion_time d,
                                               Static_row (supplied_static_row es)]
                               @ cl @ [End_of_partition]
                         \<and> list_all is_clustered_item cl))
       \<and> (\<not> supplies_static_row es \<longrightarrow> supplied_static_row es = [])"
proof -
  have returns: "\<exists>st'. consume_all env (New_partition dk # es @ [End_of_partition_event rts]) st
                      = Inr st'"
    if "length (dk_key dk) < 65536 \<and> end_open_marker st = None \<and> is_compound env"
    using partition_returns [OF assms(2), of dk st env rts] that by simp
  have written: "\<exists>d cl. data st' = data st @ [Partition_key (dk_key dk), Deletion_time d,
                                               Static_row (supplied_static_row es)]
                               @ cl @ [End_of_partition]
                         \<and> list_all is_clustered_item cl"
    if run: "consume_all env (New_partition dk # es @ [End_of_partition_event rts]) st = Inr st'"
    for st'
  proof -
    from partition_data [OF assms(2) run] obtain cl where
      d: "data st' = data st @ Partition_key (dk_key dk) # header_items env es
                    @ cl @ [End_of_partition]"
      and cl: "list_all is_clustered_item cl"
      by blast
    have "data st' = data st @ [Partition_key (dk_key dk),
                                Deletion_time (to_deletion_time (supplied_tombstone es)),
                                Static_row (supplied_static_row es)]
                       @ cl @ [End_of_partition]"
      using d assms(1) by (simp add: header_items_def)
    with cl show ?thesis
      by blast
  qed
  have e: "\<not> supplies_static_row es \<longrightarrow> supplied_static_row es = []"
    by (cases es rule: supplies_static_row.cases) simp_all
  have r: "length (dk_key dk) < 65536 \<and> end_open_marker st = None \<and> is_compound env
          \<longrightarrow> (\<exists>st'. consume_all env (New_partition dk # es @ [End_of_partition_event rts]) st
                      = Inr st')"
    by (rule impI) (rule returns)
  have w: "\<forall>st'. consume_all env (New_partition dk # es @ [End_of_partition_event rts]) st = Inr st'
            \<longrightarrow> (\<exists>d cl. data st' = data st @ [Partition_key (dk_key dk), Deletion_time d,
                                               Static_row (supplied_static_row es)]
                               @ cl @ [End_of_partition]
                         \<and> list_all is_clustered_item cl)"
    by (intro allI impI) (rule written)
  from r w e show ?thesis
    by (intro conjI)
qed

theorem partition_static_row_witness:
  "has_static_columns example_env
   \<and> partition_events example_events_a
   \<and> length (dk_key \<lparr>dk_token = [7], dk_key = [1]\<rparr>) < 65536
   \<and> end_open_marker example_state = None
   \<and> is_compound example_env
   \<and> (\<exists>st'. consume_all example_env
        (New_partition \<lparr>dk_token = [7], dk_key = [1]\<rparr> # example_events_a
           @ [End_of_partition_event []]) example_state = Inr st')
   \<and> consume_all example_env
        (New_partition \<lparr>dk_token = [7], dk_key = [1]\<rparr> # example_events_a
           @ [End_of_partition_event []]) example_state
      = Inr example_result_a
   \<and> \<not> supplies_static_row example_events_a
   \<and> (\<exists>d cl. data example_result_a
                = data example_state @ [Partition_key [1], Deletion_time d, Static_row []]
                    @ cl @ [End_of_partition]
              \<and> list_all is_clustered_item cl)"
proof -
  have s: "has_static_columns example_env"
    by (simp add: example_env_def)
  have p: "partition_events example_events_a"
    by (simp add: example_events_a_def)
  have k: "length (dk_key \<lparr>dk_token = [7], dk_key = [1]\<rparr>) < 65536"
    by simp
  have o: "end_open_marker example_state = None"
    by (simp add: example_state_def)
  have c: "is_compound example_env"
    by (simp add: example_env_def)
  have h: "consume_all example_env
        (New_partition \<lparr>dk_token = [7], dk_key = [1]\<rparr> # example_events_a
           @ [End_of_partition_event []]) example_state
      = Inr example_result_a"
    by code_simp
  have n: "\<not> supplies_static_row example_events_a"
    by (simp add: example_events_a_def)
  note t = partition_static_row [OF s p, of "\<lparr>dk_token = [7], dk_key = [1]\<rparr>" example_state "[]"]
  from t [THEN conjunct1] k o c have r: "\<exists>st'. consume_all example_env
        (New_partition \<lparr>dk_token = [7], dk_key = [1]\<rparr> # example_events_a
           @ [End_of_partition_event []]) example_state = Inr st'"
    by simp
  from t n have e: "supplied_static_row example_events_a = []"
    by blast
  from t h have "\<exists>d cl. data example_result_a
                = data example_state @ [Partition_key [1], Deletion_time d,
                     Static_row (supplied_static_row example_events_a)]
                    @ cl @ [End_of_partition]
              \<and> list_all is_clustered_item cl"
    by simp
  then have a: "\<exists>d cl. data example_result_a
                = data example_state @ [Partition_key [1], Deletion_time d, Static_row []]
                    @ cl @ [End_of_partition]
              \<and> list_all is_clustered_item cl"
    unfolding e .
  from s p k o c r h n a show ?thesis
    by (intro conjI)
qed

end
